theory Spec2Isabelle
  imports Main "HOL-Library.Word"
begin

section \<open>The compute pipeline of the Vulkan renderer\<close>

text \<open>
  A shallow embedding of \<^verbatim>\<open>src/video_core/renderer_vulkan/vk_compute_pipeline.cpp\<close>: the
  constructor \<^verbatim>\<open>ComputePipeline::ComputePipeline\<close>, which builds the descriptor-set layout,
  the pipeline layout and the pipeline, and \<^verbatim>\<open>ComputePipeline::BindResources\<close>, which
  stages the buffers, resolves the images and samplers and pushes the descriptor writes.
\<close>

subsection \<open>Machine integers and Vulkan handles\<close>

type_synonym u32 = "32 word"
type_synonym u64 = "64 word"

text \<open>\<^verbatim>\<open>VAddr\<close> is a 64-bit guest address. A Vulkan handle is a 64-bit value, and
  \<^verbatim>\<open>VK_NULL_HANDLE\<close> is 0.\<close>

type_synonym VAddr = u64
type_synonym VkHandle = u64

definition VK_NULL_HANDLE :: VkHandle where
  "VK_NULL_HANDLE = 0"

subsection \<open>Vulkan enumerations and structures used by the file\<close>

datatype DescriptorType =
    eSampler | eCombinedImageSampler | eSampledImage | eStorageImage
  | eUniformTexelBuffer | eStorageTexelBuffer | eUniformBuffer | eStorageBuffer

datatype ShaderStageFlagBits = eVertex | eFragment | eComputeStage

datatype PipelineBindPoint = eGraphics | eCompute

datatype DescriptorSetLayoutCreateFlagBits = eUpdateAfterBindPool | ePushDescriptorKHR

datatype ImageLayout = eUndefined | eGeneral | eShaderReadOnlyOptimal

datatype Result = eSuccess | ePipelineCompileRequiredEXT | eErrorOutOfHostMemory
  | eErrorOutOfDeviceMemory | eErrorInvalidShaderNV

text \<open>A flags value (\<^verbatim>\<open>vk::ShaderStageFlags\<close>, \<^verbatim>\<open>vk::DescriptorSetLayoutCreateFlags\<close>) is
  the set of its bits.\<close>

record DescriptorSetLayoutBinding =
  binding :: u32
  descriptorType :: DescriptorType
  descriptorCount :: u32
  stageFlags :: "ShaderStageFlagBits set"

record PipelineShaderStageCreateInfo =
  stage :: ShaderStageFlagBits
  module :: VkHandle
  pName :: string

text \<open>\<^verbatim>\<open>pBindings\<close> with \<^verbatim>\<open>bindingCount\<close> is the array the host reads; the list is the
  content of the \<^verbatim>\<open>small_vector\<close> that \<^verbatim>\<open>bindings.data()\<close> points to.\<close>

record DescriptorSetLayoutCreateInfo =
  flags :: "DescriptorSetLayoutCreateFlagBits set"
  bindingCount :: u32
  pBindings :: "DescriptorSetLayoutBinding list"

text \<open>A push-constant range is (stage flags, offset, size); \<^verbatim>\<open>nullptr\<close> is the empty list.\<close>

type_synonym PushConstantRange = "ShaderStageFlagBits set \<times> u32 \<times> u32"

record PipelineLayoutCreateInfo =
  setLayoutCount :: u32
  pSetLayouts :: "VkHandle list"
  pushConstantRangeCount :: u32
  pPushConstantRanges :: "PushConstantRange list"

record ComputePipelineCreateInfo =
  stage_ci :: PipelineShaderStageCreateInfo
  layout :: VkHandle

record DescriptorBufferInfo =
  buffer :: VkHandle
  offset :: u64
  range_bi :: u64

record DescriptorImageInfo =
  sampler :: VkHandle
  imageView :: VkHandle
  imageLayout :: ImageLayout

text \<open>A \<^verbatim>\<open>vk::WriteDescriptorSet\<close>. The two pointers point into the local arrays
  \<^verbatim>\<open>buffer_infos\<close> and \<^verbatim>\<open>image_infos\<close>: \<open>Some i\<close> is the address of element \<open>i\<close> of
  the array, \<open>None\<close> is the null pointer a designated initialiser leaves. The fields that
  share a name with \<^verbatim>\<open>vk::DescriptorSetLayoutBinding\<close> carry the suffix \<open>_w\<close>.\<close>

record WriteDescriptorSet =
  dstSet :: VkHandle
  dstBinding :: u32
  dstArrayElement :: u32
  descriptorCount_w :: u32
  descriptorType_w :: DescriptorType
  pImageInfo :: "nat option"
  pBufferInfo :: "nat option"

subsection \<open>The shader's resource layout\<close>

text \<open>
  \<^verbatim>\<open>Shader::Info\<close> and its resource structs are declared in a header that is not part of
  this file. The file reads \<^verbatim>\<open>sgpr_base\<close> and \<^verbatim>\<open>dword_offset\<close> of every entry (the place
  of its hardware descriptor) and \<^verbatim>\<open>is_storage\<close> of a buffer entry; only these fields are
  modelled. An image entry and a sampler entry are a bare location.
\<close>

record ResourceLocation =
  sgpr_base :: u32
  dword_offset :: u32

record BufferResource = ResourceLocation +
  is_storage :: bool

type_synonym ImageResource = ResourceLocation
type_synonym SamplerResource = ResourceLocation

record Info =
  buffers :: "BufferResource list"
  images :: "ImageResource list"
  samplers :: "SamplerResource list"

subsection \<open>The constructor\<close>

text \<open>The logical device: what the host answers to the three creation calls the
  constructor makes. Each is a parameter. The two layout creations are taken to succeed and
  give the handle created for a create-info; what the constructor does when one of them
  fails is not modelled. \<open>vkCreateComputePipelines\<close> is the host's answer to the creation
  of the pipeline: its result code and the handle.\<close>

record Device =
  createDescriptorSetLayoutUnique :: "DescriptorSetLayoutCreateInfo \<Rightarrow> VkHandle"
  createPipelineLayoutUnique :: "PipelineLayoutCreateInfo \<Rightarrow> VkHandle"
  vkCreateComputePipelines :: "VkHandle \<Rightarrow> ComputePipelineCreateInfo \<Rightarrow> Result \<times> VkHandle"

text \<open>The file is written against Vulkan-Hpp with exceptions: lines 58 and 67 assign what
  the creation call returns to the handle directly. There a call throws
  \<^verbatim>\<open>vk::SystemError\<close>, with the result code and a message that names the call, when the
  host's result is not one of the call's success codes. For
  \<^verbatim>\<open>createComputePipelineUnique\<close> the success codes are \<^verbatim>\<open>eSuccess\<close> and
  \<^verbatim>\<open>ePipelineCompileRequiredEXT\<close>, and the result code comes back beside the handle.\<close>

datatype SystemError = SystemError Result string

definition createComputePipelineUnique ::
  "Device \<Rightarrow> VkHandle \<Rightarrow> ComputePipelineCreateInfo \<Rightarrow> SystemError + Result \<times> VkHandle" where
  "createComputePipelineUnique dev pipeline_cache ci =
     (case vkCreateComputePipelines dev pipeline_cache ci of
        (r, h) \<Rightarrow>
          if r = eSuccess \<or> r = ePipelineCompileRequiredEXT then Inr (r, h)
          else Inl (SystemError r ''vk::Device::createComputePipelineUnique''))"

text \<open>The calls made on the device, in order, with their arguments.\<close>

datatype DeviceCall =
    CreateDescriptorSetLayout DescriptorSetLayoutCreateInfo
  | CreatePipelineLayout PipelineLayoutCreateInfo
  | CreateComputePipeline VkHandle ComputePipelineCreateInfo

text \<open>The fields of a \<^verbatim>\<open>ComputePipeline\<close> (the references to the instance and the
  scheduler apart).\<close>

record ComputePipeline =
  info :: Info
  desc_layout :: VkHandle
  pipeline_layout :: VkHandle
  pipeline :: VkHandle

text \<open>How the constructor ends: it returns, and the object exists; or an exception
  leaves it and reaches the caller, and the object does not exist (the members built so
  far are destroyed); or it reaches \<^verbatim>\<open>UNREACHABLE_MSG\<close>, which logs the message and ends
  the process. \<open>constructed\<close> is the object the caller has afterwards, if any.\<close>

datatype 'a outcome = Returned 'a | Threw SystemError | Unreachable string


text \<open>The three loops of lines 25 to 51. The state of a loop is the vector \<^verbatim>\<open>bindings\<close>
  and the counter \<^verbatim>\<open>binding\<close>; \<^verbatim>\<open>binding++\<close> yields the old value and adds one, wrapping
  at 32 bits.\<close>

definition push_buffer_binding ::
  "BufferResource \<Rightarrow> DescriptorSetLayoutBinding list \<times> u32 \<Rightarrow> DescriptorSetLayoutBinding list \<times> u32" where
  "push_buffer_binding b s = (case s of (bindings, n) \<Rightarrow>
     (bindings @ [\<lparr>binding = n,
                   descriptorType = (if is_storage b then eStorageBuffer else eUniformBuffer),
                   descriptorCount = 1,
                   stageFlags = {eComputeStage}\<rparr>], n + 1))"

definition push_image_binding ::
  "ImageResource \<Rightarrow> DescriptorSetLayoutBinding list \<times> u32 \<Rightarrow> DescriptorSetLayoutBinding list \<times> u32" where
  "push_image_binding i s = (case s of (bindings, n) \<Rightarrow>
     (bindings @ [\<lparr>binding = n, descriptorType = eSampledImage, descriptorCount = 1,
                   stageFlags = {eComputeStage}\<rparr>], n + 1))"

definition push_sampler_binding ::
  "SamplerResource \<Rightarrow> DescriptorSetLayoutBinding list \<times> u32 \<Rightarrow> DescriptorSetLayoutBinding list \<times> u32" where
  "push_sampler_binding i s = (case s of (bindings, n) \<Rightarrow>
     (bindings @ [\<lparr>binding = n, descriptorType = eSampler, descriptorCount = 1,
                   stageFlags = {eComputeStage}\<rparr>], n + 1))"

definition layout_bindings :: "Info \<Rightarrow> DescriptorSetLayoutBinding list" where
  "layout_bindings shader_info =
     fst (fold push_sampler_binding (samplers shader_info)
           (fold push_image_binding (images shader_info)
             (fold push_buffer_binding (buffers shader_info) ([], 0))))"

text \<open>The create-infos the constructor fills in: \<^verbatim>\<open>shader_ci\<close> (lines 19 to 23),
  \<^verbatim>\<open>desc_layout_ci\<close> (lines 53 to 57), \<^verbatim>\<open>layout_info\<close> (lines 61 to 66) and
  \<^verbatim>\<open>compute_pipeline_ci\<close> (lines 69 to 72), each as a function of what it is built from.\<close>

definition shader_ci :: "VkHandle \<Rightarrow> PipelineShaderStageCreateInfo" where
  "shader_ci module' = \<lparr>stage = eComputeStage, module = module', pName = ''main''\<rparr>"

definition desc_layout_ci :: "Info \<Rightarrow> DescriptorSetLayoutCreateInfo" where
  "desc_layout_ci info' =
     (let bindings = layout_bindings info'
      in \<lparr>flags = {ePushDescriptorKHR},
          bindingCount = of_nat (length bindings),
          pBindings = bindings\<rparr>)"

definition layout_info :: "VkHandle \<Rightarrow> PipelineLayoutCreateInfo" where
  "layout_info set_layout =
     \<lparr>setLayoutCount = 1, pSetLayouts = [set_layout],
      pushConstantRangeCount = 0, pPushConstantRanges = []\<rparr>"

definition compute_pipeline_ci :: "VkHandle \<Rightarrow> VkHandle \<Rightarrow> ComputePipelineCreateInfo" where
  "compute_pipeline_ci module' pipeline_layout' =
     \<lparr>stage_ci = shader_ci module', layout = pipeline_layout'\<rparr>"

text \<open>The constructor: its outcome and the calls it made on the device. An exception
  thrown by the creation of the pipeline (line 74) leaves the constructor, which has no
  handler; a result that comes back and is not \<^verbatim>\<open>eSuccess\<close> reaches \<^verbatim>\<open>UNREACHABLE_MSG\<close>
  (line 78).\<close>

definition ComputePipeline_ctor ::
  "Device \<Rightarrow> VkHandle \<Rightarrow> Info \<Rightarrow> VkHandle \<Rightarrow> ComputePipeline outcome \<times> DeviceCall list" where
  "ComputePipeline_ctor dev pipeline_cache info' module' =
     (let desc_layout' = createDescriptorSetLayoutUnique dev (desc_layout_ci info');
          set_layout = desc_layout';
          pipeline_layout' = createPipelineLayoutUnique dev (layout_info set_layout);
          calls = [CreateDescriptorSetLayout (desc_layout_ci info'),
                   CreatePipelineLayout (layout_info set_layout),
                   CreateComputePipeline pipeline_cache
                     (compute_pipeline_ci module' pipeline_layout')]
      in case createComputePipelineUnique dev pipeline_cache
                (compute_pipeline_ci module' pipeline_layout') of
           Inl e \<Rightarrow> (Threw e, calls)
         | Inr result \<Rightarrow>
             if fst result = eSuccess
             then (Returned \<lparr>info = info', desc_layout = desc_layout',
                             pipeline_layout = pipeline_layout', pipeline = snd result\<rparr>, calls)
             else (Unreachable ''Graphics pipeline creation failed!'', calls))"

subsection \<open>The collaborators of BindResources\<close>

text \<open>Modelled from the spec: \<^verbatim>\<open>AmdGpu::Buffer\<close>, the decoded buffer descriptor, whose
  declaration is not part of this file. The spec says of a hardware descriptor: "For
  buffers it yields a base address and byte size". \<open>base_address\<close> is what
  \<^verbatim>\<open>vsharp.base_address.Value()\<close> gives and \<open>GetSize\<close> what \<^verbatim>\<open>vsharp.GetSize()\<close> gives.\<close>

record Buffer =
  base_address :: VAddr
  GetSize :: u32

text \<open>The \<^verbatim>\<open>ImageView\<close> that \<^verbatim>\<open>FindImageView\<close> returns a reference to; the file reads
  its handle \<^verbatim>\<open>*image_view.image_view\<close>.\<close>

record ImageView =
  image_view :: VkHandle

text \<open>
  The services \<^verbatim>\<open>BindResources\<close> calls, none of which is defined in this file; each is a
  parameter. \<open>'tc\<close> is the state of the texture cache, \<open>'sb\<close> the state of the staging
  stream buffer, \<open>'ts\<close> and \<open>'ss\<close> the image and sampler descriptors (opaque here: they
  are read and handed to the texture cache). A call that changes its object returns the
  new state.
  \<^item> \<^verbatim>\<open>info.ReadUd<T>(sgpr_base, dword_offset)\<close> for the three descriptor types;
  \<^item> \<^verbatim>\<open>texture_cache.OnCpuWrite(addr)\<close>, \<^verbatim>\<open>FindImageView(tsharp)\<close>, \<^verbatim>\<open>GetSampler(ssharp)\<close>;
  \<^item> \<^verbatim>\<open>staging.Map(size, alignment)\<close>, which returns (data, offset, invalidated),
    \<^verbatim>\<open>staging.Commit(size)\<close> and \<^verbatim>\<open>staging.Handle()\<close>. The offset is taken as a 64-bit
    value, the widest it can be; line 106 narrows it to \<^verbatim>\<open>u32\<close>;
  \<^item> \<^verbatim>\<open>scheduler.CommandBuffer()\<close>, the command buffer being recorded.
\<close>

record ('tc, 'sb, 'ts, 'ss) Services =
  ReadUd_Buffer :: "u32 \<Rightarrow> u32 \<Rightarrow> Buffer"
  ReadUd_Image :: "u32 \<Rightarrow> u32 \<Rightarrow> 'ts"
  ReadUd_Sampler :: "u32 \<Rightarrow> u32 \<Rightarrow> 'ss"
  TextureCache_OnCpuWrite :: "'tc \<Rightarrow> VAddr \<Rightarrow> 'tc"
  TextureCache_FindImageView :: "'tc \<Rightarrow> 'ts \<Rightarrow> ImageView \<times> 'tc"
  TextureCache_GetSampler :: "'tc \<Rightarrow> 'ss \<Rightarrow> VkHandle \<times> 'tc"
  StreamBuffer_Map :: "'sb \<Rightarrow> u64 \<Rightarrow> u64 \<Rightarrow> (u64 \<times> u64 \<times> bool) \<times> 'sb"
  StreamBuffer_Commit :: "'sb \<Rightarrow> u64 \<Rightarrow> 'sb"
  StreamBuffer_Handle :: "'sb \<Rightarrow> VkHandle"
  Scheduler_CommandBuffer :: VkHandle

text \<open>The calls \<^verbatim>\<open>BindResources\<close> makes that act outside its locals, with their arguments.
  The push carries the command buffer, the bind point, the layout, the set index, the
  writes, and the content of the two local arrays the writes point into.\<close>

datatype ('ts, 'ss) Event =
    EvOnCpuWrite VAddr
  | EvMap u64 u64
  | EvMemcpy u64 VAddr u64
  | EvCommit u64
  | EvFindImageView 'ts
  | EvGetSampler 'ss
  | EvPushDescriptorSetKHR VkHandle PipelineBindPoint VkHandle u32
      "WriteDescriptorSet list" "DescriptorBufferInfo list" "DescriptorImageInfo list"

text \<open>The state outside the locals: the pipeline object the method is called on, the
  texture cache, the staging buffer, and the calls made so far.\<close>

record ('tc, 'sb, 'ts, 'ss) World =
  this_obj :: ComputePipeline
  texture_cache :: 'tc
  staging :: 'sb
  trace :: "('ts, 'ss) Event list"

text \<open>The locals of \<^verbatim>\<open>BindResources\<close> (lines 96 to 99).\<close>

record Locals =
  buffer_infos :: "DescriptorBufferInfo list"
  image_infos :: "DescriptorImageInfo list"
  set_writes :: "WriteDescriptorSet list"
  binding_var :: u32

text \<open>\<^verbatim>\<open>boost::container::static_vector<T, N>\<close> holds at most \<open>N\<close> elements in place; an
  insertion into a full one throws \<^verbatim>\<open>bad_alloc\<close> and stores nothing.\<close>

datatype error = bad_alloc

definition emplace_back :: "nat \<Rightarrow> 'a list \<Rightarrow> 'a \<Rightarrow> error + 'a list" where
  "emplace_back capacity v x = (if length v < capacity then Inr (v @ [x]) else Inl bad_alloc)"

definition MinUniformAlignment :: u64 where
  "MinUniformAlignment = 64"

subsection \<open>BindResources\<close>

text \<open>The lambda of lines 88 to 93: map a region, copy \<open>size\<close> bytes from \<open>src\<close> to it,
  commit it, and return the offset \<^verbatim>\<open>Map\<close> gave. The bytes copied are not modelled.\<close>

definition map_staging ::
  "('tc, 'sb, 'ts, 'ss) Services \<Rightarrow> VAddr \<Rightarrow> u64 \<Rightarrow> ('tc, 'sb, 'ts, 'ss) World
     \<Rightarrow> u64 \<times> ('tc, 'sb, 'ts, 'ss) World" where
  "map_staging svc src size' w =
     (case StreamBuffer_Map svc (staging w) size' MinUniformAlignment of
        ((data, offset', invalidated), sb1) \<Rightarrow>
          (offset', w\<lparr>staging := StreamBuffer_Commit svc sb1 size',
                      trace := trace w @ [EvMap size' MinUniformAlignment,
                                          EvMemcpy data src size', EvCommit size']\<rparr>))"

text \<open>The body of the loop over \<^verbatim>\<open>info.buffers\<close> (lines 102 to 117).\<close>

definition bind_buffer ::
  "('tc, 'sb, 'ts, 'ss) Services \<Rightarrow> BufferResource \<Rightarrow> Locals \<Rightarrow> ('tc, 'sb, 'ts, 'ss) World
     \<Rightarrow> (error + Locals) \<times> ('tc, 'sb, 'ts, 'ss) World" where
  "bind_buffer svc buffer' l w =
     (let vsharp = ReadUd_Buffer svc (sgpr_base buffer') (dword_offset buffer');
          size' = GetSize vsharp;
          addr = base_address vsharp;
          w1 = w\<lparr>texture_cache := TextureCache_OnCpuWrite svc (texture_cache w) addr,
                 trace := trace w @ [EvOnCpuWrite addr]\<rparr>
      in case map_staging svc addr (ucast size') w1 of
        (offset64, w2) \<Rightarrow>
          (let offset' = (ucast offset64 :: u32) in
           case emplace_back 4 (buffer_infos l)
                  \<lparr>buffer = StreamBuffer_Handle svc (staging w2),
                   offset = ucast offset', range_bi = ucast size'\<rparr> of
             Inl e \<Rightarrow> (Inl e, w2)
           | Inr buffer_infos' \<Rightarrow>
               (Inr (l\<lparr>buffer_infos := buffer_infos',
                        set_writes := set_writes l @
                          [\<lparr>dstSet = VK_NULL_HANDLE, dstBinding = binding_var l,
                            dstArrayElement = 0, descriptorCount_w = 1,
                            descriptorType_w =
                              (if is_storage buffer' then eStorageBuffer else eUniformBuffer),
                            pImageInfo = None,
                            pBufferInfo = Some (length buffer_infos' - 1)\<rparr>],
                        binding_var := binding_var l + 1\<rparr>), w2)))"

text \<open>The body of the loop over \<^verbatim>\<open>info.images\<close> (lines 121 to 131).\<close>

definition bind_image ::
  "('tc, 'sb, 'ts, 'ss) Services \<Rightarrow> ImageResource \<Rightarrow> Locals \<Rightarrow> ('tc, 'sb, 'ts, 'ss) World
     \<Rightarrow> (error + Locals) \<times> ('tc, 'sb, 'ts, 'ss) World" where
  "bind_image svc image' l w =
     (let tsharp = ReadUd_Image svc (sgpr_base image') (dword_offset image') in
      case TextureCache_FindImageView svc (texture_cache w) tsharp of
        (image_view', tc1) \<Rightarrow>
          (let w1 = w\<lparr>texture_cache := tc1, trace := trace w @ [EvFindImageView tsharp]\<rparr> in
           case emplace_back 8 (image_infos l)
                  \<lparr>sampler = VK_NULL_HANDLE, imageView = image_view image_view',
                   imageLayout = eGeneral\<rparr> of
             Inl e \<Rightarrow> (Inl e, w1)
           | Inr image_infos' \<Rightarrow>
               (Inr (l\<lparr>image_infos := image_infos',
                        set_writes := set_writes l @
                          [\<lparr>dstSet = VK_NULL_HANDLE, dstBinding = binding_var l,
                            dstArrayElement = 0, descriptorCount_w = 1,
                            descriptorType_w = eSampledImage,
                            pImageInfo = Some (length image_infos' - 1),
                            pBufferInfo = None\<rparr>],
                        binding_var := binding_var l + 1\<rparr>), w1)))"

text \<open>The body of the loop over \<^verbatim>\<open>info.samplers\<close> (lines 134 to 144).\<close>

definition bind_sampler ::
  "('tc, 'sb, 'ts, 'ss) Services \<Rightarrow> SamplerResource \<Rightarrow> Locals \<Rightarrow> ('tc, 'sb, 'ts, 'ss) World
     \<Rightarrow> (error + Locals) \<times> ('tc, 'sb, 'ts, 'ss) World" where
  "bind_sampler svc sampler' l w =
     (let ssharp = ReadUd_Sampler svc (sgpr_base sampler') (dword_offset sampler') in
      case TextureCache_GetSampler svc (texture_cache w) ssharp of
        (vk_sampler, tc1) \<Rightarrow>
          (let w1 = w\<lparr>texture_cache := tc1, trace := trace w @ [EvGetSampler ssharp]\<rparr> in
           case emplace_back 8 (image_infos l)
                  \<lparr>sampler = vk_sampler, imageView = VK_NULL_HANDLE,
                   imageLayout = eGeneral\<rparr> of
             Inl e \<Rightarrow> (Inl e, w1)
           | Inr image_infos' \<Rightarrow>
               (Inr (l\<lparr>image_infos := image_infos',
                        set_writes := set_writes l @
                          [\<lparr>dstSet = VK_NULL_HANDLE, dstBinding = binding_var l,
                            dstArrayElement = 0, descriptorCount_w = 1,
                            descriptorType_w = eSampler,
                            pImageInfo = Some (length image_infos' - 1),
                            pBufferInfo = None\<rparr>],
                        binding_var := binding_var l + 1\<rparr>), w1)))"

text \<open>A range-based \<^verbatim>\<open>for\<close> whose body may throw: the first exception leaves the loop and
  the function, the locals are gone, what was done to the world stays.\<close>

fun for_each ::
  "('a \<Rightarrow> 'l \<Rightarrow> 'w \<Rightarrow> (error + 'l) \<times> 'w) \<Rightarrow> 'a list \<Rightarrow> 'l \<Rightarrow> 'w \<Rightarrow> (error + 'l) \<times> 'w" where
  "for_each body [] l w = (Inr l, w)"
| "for_each body (x # xs) l w =
     (case body x l w of
        (Inl e, w') \<Rightarrow> (Inl e, w')
      | (Inr l', w') \<Rightarrow> for_each body xs l' w')"

text \<open>Lines 96 to 145: the locals and the three loops.\<close>

definition record_bindings ::
  "('tc, 'sb, 'ts, 'ss) Services \<Rightarrow> ('tc, 'sb, 'ts, 'ss) World
     \<Rightarrow> (error + Locals) \<times> ('tc, 'sb, 'ts, 'ss) World" where
  "record_bindings svc w =
     (let l0 = \<lparr>buffer_infos = [], image_infos = [], set_writes = [], binding_var = 0\<rparr> in
      case for_each (bind_buffer svc) (buffers (info (this_obj w))) l0 w of
        (Inl e, w1) \<Rightarrow> (Inl e, w1)
      | (Inr l1, w1) \<Rightarrow>
          (case for_each (bind_image svc) (images (info (this_obj w1))) l1 w1 of
             (Inl e, w2) \<Rightarrow> (Inl e, w2)
           | (Inr l2, w2) \<Rightarrow>
               for_each (bind_sampler svc) (samplers (info (this_obj w2))) l2 w2))"

text \<open>Lines 147 to 151: the push, made only when there is a write.\<close>

definition push_bindings ::
  "('tc, 'sb, 'ts, 'ss) Services \<Rightarrow> Locals \<Rightarrow> ('tc, 'sb, 'ts, 'ss) World
     \<Rightarrow> ('tc, 'sb, 'ts, 'ss) World" where
  "push_bindings svc l w =
     (if set_writes l \<noteq> []
      then w\<lparr>trace := trace w @
               [EvPushDescriptorSetKHR (Scheduler_CommandBuffer svc) eCompute
                  (pipeline_layout (this_obj w)) 0
                  (set_writes l) (buffer_infos l) (image_infos l)]\<rparr>
      else w)"

definition BindResources ::
  "('tc, 'sb, 'ts, 'ss) Services \<Rightarrow> ('tc, 'sb, 'ts, 'ss) World
     \<Rightarrow> (error + unit) \<times> ('tc, 'sb, 'ts, 'ss) World" where
  "BindResources svc w =
     (case record_bindings svc w of
        (Inl e, w') \<Rightarrow> (Inl e, w')
      | (Inr l, w') \<Rightarrow> (Inr (), push_bindings svc l w'))"

subsection \<open>Notions for stating the properties\<close>

abbreviation the_buffers :: "('tc, 'sb, 'ts, 'ss) World \<Rightarrow> BufferResource list" where
  "the_buffers w \<equiv> buffers (info (this_obj w))"

abbreviation the_images :: "('tc, 'sb, 'ts, 'ss) World \<Rightarrow> ImageResource list" where
  "the_images w \<equiv> images (info (this_obj w))"

abbreviation the_samplers :: "('tc, 'sb, 'ts, 'ss) World \<Rightarrow> SamplerResource list" where
  "the_samplers w \<equiv> samplers (info (this_obj w))"

text \<open>The descriptor type of a buffer entry, as both the constructor (lines 30 and 31) and
  \<^verbatim>\<open>BindResources\<close> (lines 114 and 115) choose it.\<close>

definition buffer_type :: "BufferResource \<Rightarrow> DescriptorType" where
  "buffer_type b = (if is_storage b then eStorageBuffer else eUniformBuffer)"

text \<open>A layout binding with index \<open>n\<close> and type \<open>ty\<close>, and a descriptor write with index
  \<open>k\<close>, type \<open>ty\<close> and the two info pointers, the other fields as the file sets them.\<close>

definition layout_entry :: "u32 \<Rightarrow> DescriptorType \<Rightarrow> DescriptorSetLayoutBinding" where
  "layout_entry n ty =
     \<lparr>binding = n, descriptorType = ty, descriptorCount = 1, stageFlags = {eComputeStage}\<rparr>"

definition descriptor_write ::
  "nat \<Rightarrow> DescriptorType \<Rightarrow> nat option \<Rightarrow> nat option \<Rightarrow> WriteDescriptorSet" where
  "descriptor_write k ty pi pb =
     \<lparr>dstSet = VK_NULL_HANDLE, dstBinding = of_nat k, dstArrayElement = 0,
      descriptorCount_w = 1, descriptorType_w = ty, pImageInfo = pi, pBufferInfo = pb\<rparr>"

text \<open>The locals before the first loop.\<close>

definition l0 :: Locals where
  "l0 = \<lparr>buffer_infos = [], image_infos = [], set_writes = [], binding_var = 0\<rparr>"

fun is_push :: "('ts, 'ss) Event \<Rightarrow> bool" where
  "is_push (EvPushDescriptorSetKHR c bp lay st ws bis iis) = True"
| "is_push e = False"

text \<open>What one iteration of each loop does to the state it threads, as a function of the
  entry: the buffer loop notifies the texture cache of a write at the decoded address and
  moves the staging buffer over a mapped and committed region; the image and sampler loops
  move the texture cache over one resolution.\<close>

definition invalidate ::
  "('tc, 'sb, 'ts, 'ss) Services \<Rightarrow> BufferResource \<Rightarrow> 'tc \<Rightarrow> 'tc" where
  "invalidate svc b tc =
     TextureCache_OnCpuWrite svc tc
       (base_address (ReadUd_Buffer svc (sgpr_base b) (dword_offset b)))"

definition stage_buffer ::
  "('tc, 'sb, 'ts, 'ss) Services \<Rightarrow> BufferResource \<Rightarrow> 'sb \<Rightarrow> 'sb" where
  "stage_buffer svc b sb =
     (let n = ucast (GetSize (ReadUd_Buffer svc (sgpr_base b) (dword_offset b)))
      in StreamBuffer_Commit svc (snd (StreamBuffer_Map svc sb n MinUniformAlignment)) n)"

definition resolve_image ::
  "('tc, 'sb, 'ts, 'ss) Services \<Rightarrow> ImageResource \<Rightarrow> 'tc \<Rightarrow> 'tc" where
  "resolve_image svc x tc =
     snd (TextureCache_FindImageView svc tc (ReadUd_Image svc (sgpr_base x) (dword_offset x)))"

definition resolve_sampler ::
  "('tc, 'sb, 'ts, 'ss) Services \<Rightarrow> SamplerResource \<Rightarrow> 'tc \<Rightarrow> 'tc" where
  "resolve_sampler svc x tc =
     snd (TextureCache_GetSampler svc tc (ReadUd_Sampler svc (sgpr_base x) (dword_offset x)))"

text \<open>The staging buffer when buffer entry \<open>i\<close> is staged: the buffers before it have
  been staged. The texture cache when image entry \<open>j\<close> is resolved: every buffer has
  been notified and the images before \<open>j\<close> resolved. The texture cache when sampler entry
  \<open>k\<close> is resolved: after all of these and the samplers before \<open>k\<close>.\<close>

definition staging_before :: "('tc, 'sb, 'ts, 'ss) Services \<Rightarrow> ('tc, 'sb, 'ts, 'ss) World \<Rightarrow> nat \<Rightarrow> 'sb" where
  "staging_before svc w i = fold (stage_buffer svc) (take i (the_buffers w)) (staging w)"

definition cache_before_image ::
  "('tc, 'sb, 'ts, 'ss) Services \<Rightarrow> ('tc, 'sb, 'ts, 'ss) World \<Rightarrow> nat \<Rightarrow> 'tc" where
  "cache_before_image svc w j =
     fold (resolve_image svc) (take j (the_images w))
       (fold (invalidate svc) (the_buffers w) (texture_cache w))"

definition cache_before_sampler ::
  "('tc, 'sb, 'ts, 'ss) Services \<Rightarrow> ('tc, 'sb, 'ts, 'ss) World \<Rightarrow> nat \<Rightarrow> 'tc" where
  "cache_before_sampler svc w k =
     fold (resolve_sampler svc) (take k (the_samplers w))
       (fold (resolve_image svc) (the_images w)
         (fold (invalidate svc) (the_buffers w) (texture_cache w)))"

text \<open>\<open>staged_info svc sb b\<close>: the buffer info of the region that the staging buffer in
  state \<open>sb\<close> maps for the decoded size of \<open>b\<close> with the alignment 64: the handle of the
  staging buffer, the offset \<^verbatim>\<open>Map\<close> returned (narrowed to 32 bits by line 106), and the
  decoded size. \<open>mapped_data\<close> is the pointer \<^verbatim>\<open>Map\<close> returns with it.\<close>

definition staged_info ::
  "('tc, 'sb, 'ts, 'ss) Services \<Rightarrow> 'sb \<Rightarrow> BufferResource \<Rightarrow> DescriptorBufferInfo" where
  "staged_info svc sb b =
     (let n = ucast (GetSize (ReadUd_Buffer svc (sgpr_base b) (dword_offset b)));
          r = StreamBuffer_Map svc sb n MinUniformAlignment
      in \<lparr>buffer = StreamBuffer_Handle svc (StreamBuffer_Commit svc (snd r) n),
          offset = ucast (ucast (fst (snd (fst r))) :: u32),
          range_bi = n\<rparr>)"

definition mapped_data ::
  "('tc, 'sb, 'ts, 'ss) Services \<Rightarrow> 'sb \<Rightarrow> BufferResource \<Rightarrow> u64" where
  "mapped_data svc sb b =
     fst (fst (StreamBuffer_Map svc sb
                 (ucast (GetSize (ReadUd_Buffer svc (sgpr_base b) (dword_offset b))))
                 MinUniformAlignment))"

text \<open>\<open>image_info svc tc x\<close>: the view the texture cache in state \<open>tc\<close> resolves for the
  decoded descriptor of \<open>x\<close>, with no sampler and the general layout. \<open>sampler_info\<close> is
  the same for a sampler entry.\<close>

definition image_info ::
  "('tc, 'sb, 'ts, 'ss) Services \<Rightarrow> 'tc \<Rightarrow> ImageResource \<Rightarrow> DescriptorImageInfo" where
  "image_info svc tc x =
     \<lparr>sampler = VK_NULL_HANDLE,
      imageView = image_view (fst (TextureCache_FindImageView svc tc
                    (ReadUd_Image svc (sgpr_base x) (dword_offset x)))),
      imageLayout = eGeneral\<rparr>"

definition sampler_info ::
  "('tc, 'sb, 'ts, 'ss) Services \<Rightarrow> 'tc \<Rightarrow> SamplerResource \<Rightarrow> DescriptorImageInfo" where
  "sampler_info svc tc x =
     \<lparr>sampler = fst (TextureCache_GetSampler svc tc
                    (ReadUd_Sampler svc (sgpr_base x) (dword_offset x))),
      imageView = VK_NULL_HANDLE,
      imageLayout = eGeneral\<rparr>"

text \<open>The four calls of one iteration of the buffer loop, in the order the loop makes
  them; \<open>data\<close> is the pointer \<^verbatim>\<open>Map\<close> returned.\<close>

definition buffer_events ::
  "('tc, 'sb, 'ts, 'ss) Services \<Rightarrow> BufferResource \<Rightarrow> u64 \<Rightarrow> ('ts, 'ss) Event list" where
  "buffer_events svc b data =
     (let vsharp = ReadUd_Buffer svc (sgpr_base b) (dword_offset b);
          n = ucast (GetSize vsharp)
      in [EvOnCpuWrite (base_address vsharp), EvMap n MinUniformAlignment,
          EvMemcpy data (base_address vsharp) n, EvCommit n])"

text \<open>Modelled from the spec: \<^verbatim>\<open>StreamBuffer::Map\<close>, the staging allocator's
  \<^verbatim>\<open>allocate(size, alignment)\<close>, whose code is not part of this file. The spec says the
  region is "freshly allocated ... aligned to a minimum alignment requirement": the offset
  returned is a multiple of the alignment asked for (an alignment of 0 asks for none).\<close>

definition Map_aligned :: "('tc, 'sb, 'ts, 'ss) Services \<Rightarrow> bool" where
  "Map_aligned svc \<longleftrightarrow>
     (\<forall>sb n a. a \<noteq> 0 \<longrightarrow> unat a dvd unat (fst (snd (fst (StreamBuffer_Map svc sb n a)))))"

text \<open>The numbering in the spec's words, with which the numbering of the constructor and
  the numbering of the binder are compared. The spec says of the binding index: "a
  zero-based integer assigned sequentially across the full Resource Layout Descriptor
  (buffers, then images, then samplers)", each list in declared order.
  \<open>spec_descriptor_entries\<close> is the full descriptor in that order,
  \<open>spec_binding_assignment\<close> pairs every entry with its index, and \<open>entry_type\<close> is the
  descriptor type the spec gives an entry (section 4.1).\<close>

datatype ResourceEntry =
    BufferEntry BufferResource
  | ImageEntry ImageResource
  | SamplerEntry SamplerResource

definition spec_descriptor_entries :: "Info \<Rightarrow> ResourceEntry list" where
  "spec_descriptor_entries shader_info =
     map BufferEntry (buffers shader_info) @ map ImageEntry (images shader_info) @
     map SamplerEntry (samplers shader_info)"

definition spec_binding_assignment :: "Info \<Rightarrow> (nat \<times> ResourceEntry) list" where
  "spec_binding_assignment shader_info = enumerate 0 (spec_descriptor_entries shader_info)"

fun entry_type :: "ResourceEntry \<Rightarrow> DescriptorType" where
  "entry_type (BufferEntry b) = buffer_type b"
| "entry_type (ImageEntry x) = eSampledImage"
| "entry_type (SamplerEntry x) = eSampler"

text \<open>The write of the entry with index \<open>p\<close>, in a descriptor with \<open>nb\<close> buffers: a buffer
  entry points to element \<open>p\<close> of \<^verbatim>\<open>buffer_infos\<close>, an image or sampler entry to element
  \<open>p - nb\<close> of \<^verbatim>\<open>image_infos\<close>.\<close>

fun entry_write :: "nat \<Rightarrow> nat \<Rightarrow> ResourceEntry \<Rightarrow> WriteDescriptorSet" where
  "entry_write nb p (BufferEntry b) = descriptor_write p (buffer_type b) None (Some p)"
| "entry_write nb p (ImageEntry x) = descriptor_write p eSampledImage (Some (p - nb)) None"
| "entry_write nb p (SamplerEntry x) = descriptor_write p eSampler (Some (p - nb)) None"

text \<open>The state outside the locals after one iteration of each loop. An iteration makes
  its calls before it inserts into the local array, so the state is the same whether the
  insertion is accepted or throws.\<close>

definition after_buffer ::
  "('tc, 'sb, 'ts, 'ss) Services \<Rightarrow> BufferResource \<Rightarrow> ('tc, 'sb, 'ts, 'ss) World
     \<Rightarrow> ('tc, 'sb, 'ts, 'ss) World" where
  "after_buffer svc b w = snd (bind_buffer svc b l0 w)"

definition after_image ::
  "('tc, 'sb, 'ts, 'ss) Services \<Rightarrow> ImageResource \<Rightarrow> ('tc, 'sb, 'ts, 'ss) World
     \<Rightarrow> ('tc, 'sb, 'ts, 'ss) World" where
  "after_image svc x w = snd (bind_image svc x l0 w)"

definition after_sampler ::
  "('tc, 'sb, 'ts, 'ss) Services \<Rightarrow> SamplerResource \<Rightarrow> ('tc, 'sb, 'ts, 'ss) World
     \<Rightarrow> ('tc, 'sb, 'ts, 'ss) World" where
  "after_sampler svc x w = snd (bind_sampler svc x l0 w)"

text \<open>How many entries of each list have their iteration started in a run, whether the run
  completes or throws: the buffers up to the fifth (the iteration of the fifth makes its
  calls and then throws); the images, when the buffer loop completed, up to the ninth;
  the samplers, when the image loop completed, up to the one that finds \<^verbatim>\<open>image_infos\<close>
  full.\<close>

definition buffers_started :: "('tc, 'sb, 'ts, 'ss) World \<Rightarrow> nat" where
  "buffers_started w = min (length (the_buffers w)) 5"

definition images_started :: "('tc, 'sb, 'ts, 'ss) World \<Rightarrow> nat" where
  "images_started w =
     (if length (the_buffers w) \<le> 4 then min (length (the_images w)) 9 else 0)"

definition samplers_started :: "('tc, 'sb, 'ts, 'ss) World \<Rightarrow> nat" where
  "samplers_started w =
     (if length (the_buffers w) \<le> 4 \<and> length (the_images w) \<le> 8
      then min (length (the_samplers w)) (9 - length (the_images w)) else 0)"

text \<open>The push of line 149 for the locals \<open>l\<close>, made on the object of \<open>w\<close>; and the pushes a
  run ends with: none when a loop threw or no write was recorded, else the one push.\<close>

definition push_event ::
  "('tc, 'sb, 'ts, 'ss) Services \<Rightarrow> ('tc, 'sb, 'ts, 'ss) World \<Rightarrow> Locals \<Rightarrow> ('ts, 'ss) Event" where
  "push_event svc w l =
     EvPushDescriptorSetKHR (Scheduler_CommandBuffer svc) eCompute
       (pipeline_layout (this_obj w)) 0 (set_writes l) (buffer_infos l) (image_infos l)"

definition final_pushes ::
  "('tc, 'sb, 'ts, 'ss) Services \<Rightarrow> ('tc, 'sb, 'ts, 'ss) World \<Rightarrow> ('ts, 'ss) Event list" where
  "final_pushes svc w =
     (case fst (record_bindings svc w) of
        Inl e \<Rightarrow> []
      | Inr l \<Rightarrow> if set_writes l = [] then [] else [push_event svc w l])"

text \<open>The locals after every iteration of a loop that completed, in order; and the locals
  a run of \<^verbatim>\<open>BindResources\<close> goes through, from the empty ones on. Every element that is
  written into \<^verbatim>\<open>buffer_infos\<close> or \<^verbatim>\<open>image_infos\<close> is the last element of the array in
  one of these states, so every write stays in bounds when no array in these states is
  longer than its capacity (\<open>fits\<close>: at most 4 buffer infos and at most 8 image infos).\<close>

fun history ::
  "('a \<Rightarrow> 'l \<Rightarrow> 'w \<Rightarrow> (error + 'l) \<times> 'w) \<Rightarrow> 'a list \<Rightarrow> 'l \<Rightarrow> 'w \<Rightarrow> 'l list" where
  "history body [] l w = []"
| "history body (x # xs) l w =
     (case body x l w of
        (Inl e, w') \<Rightarrow> []
      | (Inr l', w') \<Rightarrow> l' # history body xs l' w')"

definition locals_reached ::
  "('tc, 'sb, 'ts, 'ss) Services \<Rightarrow> ('tc, 'sb, 'ts, 'ss) World \<Rightarrow> Locals list" where
  "locals_reached svc w =
     l0 # history (bind_buffer svc) (the_buffers w) l0 w @
     (case for_each (bind_buffer svc) (the_buffers w) l0 w of
        (Inl e, w1) \<Rightarrow> []
      | (Inr l1, w1) \<Rightarrow>
          history (bind_image svc) (the_images w) l1 w1 @
          (case for_each (bind_image svc) (the_images w) l1 w1 of
             (Inl e, w2) \<Rightarrow> []
           | (Inr l2, w2) \<Rightarrow> history (bind_sampler svc) (the_samplers w) l2 w2))"



subsection \<open>A worked dispatch\<close>

text \<open>Concrete collaborators on which the model can be run. The texture cache keeps the
  list of the addresses it was notified of, and the handle of a view it resolves counts
  them; the staging buffer is a ring of 65536 bytes with a cursor, and \<open>example_Map\<close>
  aligns the cursor up, or restarts at offset 0 when the region would not fit.\<close>

definition example_Map :: "nat \<Rightarrow> u64 \<Rightarrow> u64 \<Rightarrow> (u64 \<times> u64 \<times> bool) \<times> nat" where
  "example_Map cursor n a =
     (let aligned = (if a = 0 then cursor else (cursor + unat a - 1) div unat a * unat a);
          invalidated = (65536 < aligned + unat n);
          off = (if invalidated then 0 else aligned)
      in ((of_nat (off + 1048576), of_nat off, invalidated), off))"

definition example_services :: "(VAddr list, nat, u32 \<times> u32, u32 \<times> u32) Services" where
  "example_services =
     \<lparr>ReadUd_Buffer = (\<lambda>base off. \<lparr>base_address = ucast base * 4096, GetSize = off\<rparr>),
      ReadUd_Image = (\<lambda>base off. (base, off)),
      ReadUd_Sampler = (\<lambda>base off. (base, off)),
      TextureCache_OnCpuWrite = (\<lambda>tc addr. tc @ [addr]),
      TextureCache_FindImageView = (\<lambda>tc ts. (\<lparr>image_view = 256 + of_nat (length tc)\<rparr>, tc)),
      TextureCache_GetSampler = (\<lambda>tc ss. (512 + ucast (fst ss), tc)),
      StreamBuffer_Map = example_Map,
      StreamBuffer_Commit = (\<lambda>cursor n. cursor + unat n),
      StreamBuffer_Handle = (\<lambda>cursor. 2815),
      Scheduler_CommandBuffer = 192\<rparr>"

text \<open>A shader with a storage buffer of 256 bytes, a uniform buffer of 64 bytes, an image
  and a sampler; the state before the dispatch; the locals and the state after the three
  loops.\<close>

definition example_info :: Info where
  "example_info =
     \<lparr>buffers = [\<lparr>sgpr_base = 0, dword_offset = 256, is_storage = True\<rparr>,
                 \<lparr>sgpr_base = 4, dword_offset = 64, is_storage = False\<rparr>],
      images = [\<lparr>sgpr_base = 8, dword_offset = 0\<rparr>],
      samplers = [\<lparr>sgpr_base = 16, dword_offset = 0\<rparr>]\<rparr>"

definition example_world :: "(VAddr list, nat, u32 \<times> u32, u32 \<times> u32) World" where
  "example_world =
     \<lparr>this_obj = \<lparr>info = example_info, desc_layout = 1, pipeline_layout = 2, pipeline = 3\<rparr>,
      texture_cache = [], staging = 10, trace = []\<rparr>"

definition example_locals :: Locals where
  "example_locals =
     \<lparr>buffer_infos =
         [\<lparr>buffer = 2815, offset = 64, range_bi = 256\<rparr>,
          \<lparr>buffer = 2815, offset = 320, range_bi = 64\<rparr>],
      image_infos =
         [\<lparr>sampler = 0, imageView = 258, imageLayout = eGeneral\<rparr>,
          \<lparr>sampler = 528, imageView = 0, imageLayout = eGeneral\<rparr>],
      set_writes =
         [\<lparr>dstSet = 0, dstBinding = 0, dstArrayElement = 0,
           descriptorCount_w = 1, descriptorType_w = eStorageBuffer,
           pImageInfo = None, pBufferInfo = Some 0\<rparr>,
          \<lparr>dstSet = 0, dstBinding = 1, dstArrayElement = 0,
           descriptorCount_w = 1, descriptorType_w = eUniformBuffer,
           pImageInfo = None, pBufferInfo = Some 1\<rparr>,
          \<lparr>dstSet = 0, dstBinding = 2, dstArrayElement = 0,
           descriptorCount_w = 1, descriptorType_w = eSampledImage,
           pImageInfo = Some 0, pBufferInfo = None\<rparr>,
          \<lparr>dstSet = 0, dstBinding = 3, dstArrayElement = 0,
           descriptorCount_w = 1, descriptorType_w = eSampler,
           pImageInfo = Some 1, pBufferInfo = None\<rparr>],
      binding_var = 4\<rparr>"

definition example_world_bound :: "(VAddr list, nat, u32 \<times> u32, u32 \<times> u32) World" where
  "example_world_bound =
     \<lparr>this_obj = \<lparr>info = example_info, desc_layout = 1, pipeline_layout = 2, pipeline = 3\<rparr>,
      texture_cache = [0, 16384], staging = 384,
      trace =
        [EvOnCpuWrite 0, EvMap 256 64, EvMemcpy 1048640 0 256, EvCommit 256,
         EvOnCpuWrite 16384, EvMap 64 64, EvMemcpy 1048896 16384 64,
         EvCommit 64, EvFindImageView (8, 0), EvGetSampler (16, 0)]\<rparr>"

text \<open>A shader with five buffers, one more than \<^verbatim>\<open>buffer_infos\<close> holds, and a shader with
  no resources.\<close>

definition overfull_world :: "(VAddr list, nat, u32 \<times> u32, u32 \<times> u32) World" where
  "overfull_world =
     \<lparr>this_obj =
        \<lparr>info = \<lparr>buffers = replicate 5 \<lparr>sgpr_base = 0, dword_offset = 64, is_storage = False\<rparr>,
                  images = [], samplers = []\<rparr>,
         desc_layout = 1, pipeline_layout = 2, pipeline = 3\<rparr>,
      texture_cache = [], staging = 0, trace = []\<rparr>"

definition empty_world :: "(VAddr list, nat, u32 \<times> u32, u32 \<times> u32) World" where
  "empty_world =
     \<lparr>this_obj =
        \<lparr>info = \<lparr>buffers = [], images = [], samplers = []\<rparr>,
         desc_layout = 1, pipeline_layout = 2, pipeline = 3\<rparr>,
      texture_cache = [], staging = 0, trace = []\<rparr>"

text \<open>A shader with nine images, one more than \<^verbatim>\<open>image_infos\<close> holds, and one buffer.\<close>

definition nine_images_world :: "(VAddr list, nat, u32 \<times> u32, u32 \<times> u32) World" where
  "nine_images_world =
     \<lparr>this_obj =
        \<lparr>info = \<lparr>buffers = [\<lparr>sgpr_base = 0, dword_offset = 64, is_storage = False\<rparr>],
                  images = replicate 9 \<lparr>sgpr_base = 8, dword_offset = 0\<rparr>, samplers = []\<rparr>,
         desc_layout = 1, pipeline_layout = 2, pipeline = 3\<rparr>,
      texture_cache = [], staging = 0, trace = []\<rparr>"


definition working_device :: Device where
  "working_device =
     \<lparr>createDescriptorSetLayoutUnique = (\<lambda>ci. 1),
      createPipelineLayoutUnique = (\<lambda>ci. 2),
      vkCreateComputePipelines = (\<lambda>cache ci. (eSuccess, 3))\<rparr>"

section \<open>Properties of the model\<close>

subsection \<open>The layout the constructor builds\<close>

lemma fold_push_enumerate:
  assumes step: "\<And>x acc n. f x (acc, n) = (acc @ [layout_entry n (ty x)], n + 1)"
  shows "fold f xs (acc, of_nat k) =
           (acc @ map (\<lambda>(j, x). layout_entry (of_nat j) (ty x)) (enumerate k xs),
            of_nat (k + length xs))"
proof (induction xs arbitrary: acc k)
  case Nil
  show ?case by simp
next
  case (Cons x xs)
  have "fold f (x # xs) (acc, of_nat k) = fold f xs (acc @ [layout_entry (of_nat k) (ty x)], of_nat (Suc k))"
    by (simp add: step add.commute)
  also have "\<dots> = ((acc @ [layout_entry (of_nat k) (ty x)]) @
       map (\<lambda>(j, x). layout_entry (of_nat j) (ty x)) (enumerate (Suc k) xs), of_nat (Suc k + length xs))"
    by (rule Cons.IH)
  finally show ?case by simp
qed

lemma layout_bindings_closed:
  "layout_bindings i =
     map (\<lambda>(j, b). layout_entry (of_nat j) (buffer_type b)) (enumerate 0 (buffers i)) @
     map (\<lambda>(j, x). layout_entry (of_nat j) eSampledImage) (enumerate (length (buffers i)) (images i)) @
     map (\<lambda>(j, x). layout_entry (of_nat j) eSampler)
       (enumerate (length (buffers i) + length (images i)) (samplers i))"
proof -
  have b: "fold push_buffer_binding xs (acc, of_nat k) =
           (acc @ map (\<lambda>(j, x). layout_entry (of_nat j) (buffer_type x)) (enumerate k xs),
            of_nat (k + length xs))" for xs acc k
    by (rule fold_push_enumerate) (simp add: push_buffer_binding_def layout_entry_def buffer_type_def)
  have i: "fold push_image_binding xs (acc, of_nat k) =
           (acc @ map (\<lambda>(j, x). layout_entry (of_nat j) eSampledImage) (enumerate k xs),
            of_nat (k + length xs))" for xs acc k
    by (rule fold_push_enumerate) (simp add: push_image_binding_def layout_entry_def)
  have s: "fold push_sampler_binding xs (acc, of_nat k) =
           (acc @ map (\<lambda>(j, x). layout_entry (of_nat j) eSampler) (enumerate k xs),
            of_nat (k + length xs))" for xs acc k
    by (rule fold_push_enumerate) (simp add: push_sampler_binding_def layout_entry_def)
  have "fold push_buffer_binding (buffers i) ([], 0) =
          ([] @ map (\<lambda>(j, x). layout_entry (of_nat j) (buffer_type x)) (enumerate 0 (buffers i)),
            of_nat (0 + length (buffers i)))"
    using b [of "buffers i" "[]" 0] by simp
  then show ?thesis
    by (simp only: layout_bindings_def i s fst_conv append_assoc append_Nil add_0)
qed

lemma map_fst_enum: "map (\<lambda>x. f (fst x)) (enumerate k xs) = map f [k..<k + length xs]"
proof -
  have "map (\<lambda>x. f (fst x)) (enumerate k xs) = map f (map fst (enumerate k xs))"
    by (simp only: map_map comp_def)
  also have "\<dots> = map f [k..<k + length xs]"
    by (simp only: map_fst_enumerate)
  finally show ?thesis .
qed

lemma map_snd_enum: "map (\<lambda>x. f (snd x)) (enumerate k xs) = map f xs"
proof -
  have "map (\<lambda>x. f (snd x)) (enumerate k xs) = map f (map snd (enumerate k xs))"
    by (simp only: map_map comp_def)
  also have "\<dots> = map f xs"
    by (simp only: map_snd_enumerate)
  finally show ?thesis .
qed

lemma upt_three: "[0..<a] @ [a..<a + b] @ [a + b..<a + b + c] = [0..<a + b + c]"
  by (metis add.assoc add.left_neutral upt_add_eq_append le_add1)

lemma map_binding_layout:
  "map binding (layout_bindings i) =
     map of_nat [0..<length (buffers i) + length (images i) + length (samplers i)]"
proof -
  have "map binding (layout_bindings i) =
     map of_nat [0..<0 + length (buffers i)] @
     map of_nat [length (buffers i)..<length (buffers i) + length (images i)] @
     map of_nat [length (buffers i) + length (images i)..<
                 length (buffers i) + length (images i) + length (samplers i)]"
    by (simp add: layout_bindings_closed layout_entry_def case_prod_unfold comp_def map_fst_enum)
  then show ?thesis
    by (simp only: map_append [symmetric] upt_three add_0)
qed

lemma map_type_layout:
  "map descriptorType (layout_bindings i) =
     map buffer_type (buffers i) @ replicate (length (images i)) eSampledImage @
     replicate (length (samplers i)) eSampler"
  by (simp add: layout_bindings_closed layout_entry_def case_prod_unfold comp_def map_snd_enum
      map_replicate_const)

lemma layout_all:
  "b \<in> set (layout_bindings i) \<Longrightarrow> descriptorCount b = 1 \<and> stageFlags b = {eComputeStage}"
  by (auto simp: layout_bindings_closed layout_entry_def)

lemma length_layout:
  "length (layout_bindings i) = length (buffers i) + length (images i) + length (samplers i)"
  by (simp add: layout_bindings_closed)

subsection \<open>The loop bodies and the loops\<close>

lemma bind_buffer_eq:
  "bind_buffer svc b l w =
     (let n = (ucast (GetSize (ReadUd_Buffer svc (sgpr_base b) (dword_offset b))) :: u64);
          addr = base_address (ReadUd_Buffer svc (sgpr_base b) (dword_offset b));
          r = StreamBuffer_Map svc (staging w) n MinUniformAlignment;
          sb2 = StreamBuffer_Commit svc (snd r) n;
          w2 = w\<lparr>texture_cache := TextureCache_OnCpuWrite svc (texture_cache w) addr,
                 staging := sb2,
                 trace := trace w @ [EvOnCpuWrite addr, EvMap n MinUniformAlignment,
                            EvMemcpy (fst (fst r)) addr n, EvCommit n]\<rparr>
      in if length (buffer_infos l) < 4
         then (Inr (l\<lparr>buffer_infos := buffer_infos l @
                        [\<lparr>buffer = StreamBuffer_Handle svc sb2,
                          offset = ucast (ucast (fst (snd (fst r))) :: u32),
                          range_bi = n\<rparr>],
                      set_writes := set_writes l @
                        [\<lparr>dstSet = VK_NULL_HANDLE, dstBinding = binding_var l,
                          dstArrayElement = 0, descriptorCount_w = 1,
                          descriptorType_w = buffer_type b,
                          pImageInfo = None,
                          pBufferInfo = Some (length (buffer_infos l))\<rparr>],
                      binding_var := binding_var l + 1\<rparr>), w2)
         else (Inl bad_alloc, w2))"
  by (simp add: bind_buffer_def map_staging_def emplace_back_def Let_def buffer_type_def
      split: prod.split)

lemma bind_image_eq:
  "bind_image svc x l w =
     (let tsharp = ReadUd_Image svc (sgpr_base x) (dword_offset x);
          r = TextureCache_FindImageView svc (texture_cache w) tsharp;
          w1 = w\<lparr>texture_cache := snd r, trace := trace w @ [EvFindImageView tsharp]\<rparr>
      in if length (image_infos l) < 8
         then (Inr (l\<lparr>image_infos := image_infos l @
                        [\<lparr>sampler = VK_NULL_HANDLE, imageView = image_view (fst r),
                          imageLayout = eGeneral\<rparr>],
                      set_writes := set_writes l @
                        [\<lparr>dstSet = VK_NULL_HANDLE, dstBinding = binding_var l,
                          dstArrayElement = 0, descriptorCount_w = 1,
                          descriptorType_w = eSampledImage,
                          pImageInfo = Some (length (image_infos l)),
                          pBufferInfo = None\<rparr>],
                      binding_var := binding_var l + 1\<rparr>), w1)
         else (Inl bad_alloc, w1))"
  by (simp add: bind_image_def emplace_back_def Let_def split: prod.split)

lemma bind_sampler_eq:
  "bind_sampler svc x l w =
     (let ssharp = ReadUd_Sampler svc (sgpr_base x) (dword_offset x);
          r = TextureCache_GetSampler svc (texture_cache w) ssharp;
          w1 = w\<lparr>texture_cache := snd r, trace := trace w @ [EvGetSampler ssharp]\<rparr>
      in if length (image_infos l) < 8
         then (Inr (l\<lparr>image_infos := image_infos l @
                        [\<lparr>sampler = fst r, imageView = VK_NULL_HANDLE,
                          imageLayout = eGeneral\<rparr>],
                      set_writes := set_writes l @
                        [\<lparr>dstSet = VK_NULL_HANDLE, dstBinding = binding_var l,
                          dstArrayElement = 0, descriptorCount_w = 1,
                          descriptorType_w = eSampler,
                          pImageInfo = Some (length (image_infos l)),
                          pBufferInfo = None\<rparr>],
                      binding_var := binding_var l + 1\<rparr>), w1)
         else (Inl bad_alloc, w1))"
  by (simp add: bind_sampler_def emplace_back_def Let_def split: prod.split)

lemma for_each_Inr_rule:
  assumes run: "for_each body xs l w = (Inr l', w')"
    and init: "I pre l w"
    and step: "\<And>pre x l w l' w'. I pre l w \<Longrightarrow> body x l w = (Inr l', w') \<Longrightarrow> I (pre @ [x]) l' w'"
  shows "I (pre @ xs) l' w'"
  using run init
proof (induction xs arbitrary: pre l w)
  case Nil
  then show ?case by simp
next
  case (Cons x xs)
  from Cons.prems(1) obtain l1 w1 where b: "body x l w = (Inr l1, w1)"
    and r: "for_each body xs l1 w1 = (Inr l', w')"
    by (auto split: prod.splits sum.splits)
  have "I (pre @ [x]) l1 w1"
    using Cons.prems(2) b by (rule step)
  with r have "I ((pre @ [x]) @ xs) l' w'"
    by (rule Cons.IH)
  then show ?case by simp
qed

lemma for_each_world_rule:
  assumes init: "Q w"
    and step: "\<And>x l w. Q w \<Longrightarrow> Q (snd (body x l w))"
  shows "Q (snd (for_each body xs l w))"
  using init
proof (induction xs arbitrary: l w)
  case Nil
  then show ?case by simp
next
  case (Cons x xs)
  have q: "Q (snd (body x l w))"
    using Cons.prems by (rule step)
  show ?case
  proof (cases "body x l w")
    case (Pair r w1)
    with q have q1: "Q w1" by simp
    show ?thesis
    proof (cases r)
      case (Inl e)
      with Pair q1 show ?thesis by simp
    next
      case (Inr l1)
      with Pair Cons.IH [OF q1] show ?thesis by simp
    qed
  qed
qed

subsection \<open>Binding indices, descriptor types and pointers of the writes\<close>

lemma buffers_shape:
  assumes run: "for_each (bind_buffer svc) bs l w = (Inr l', w')"
    and k: "binding_var l = of_nat k0"
  shows "binding_var l' = of_nat (k0 + length bs) \<and>
         length (buffer_infos l') = length (buffer_infos l) + length bs \<and>
         image_infos l' = image_infos l \<and>
         set_writes l' = set_writes l @
           map (\<lambda>(j, b). descriptor_write (k0 + j) (buffer_type b) None
                  (Some (length (buffer_infos l) + j))) (enumerate 0 bs)"
proof -
  let ?I = "\<lambda>pre l1 (w1 :: ('a, 'b, 'c, 'd) World).
      binding_var l1 = of_nat (k0 + length pre) \<and>
      length (buffer_infos l1) = length (buffer_infos l) + length pre \<and>
      image_infos l1 = image_infos l \<and>
      set_writes l1 = set_writes l @
        map (\<lambda>(j, b). descriptor_write (k0 + j) (buffer_type b) None
               (Some (length (buffer_infos l) + j))) (enumerate 0 pre)"
  have "?I ([] @ bs) l' w'"
  proof (rule for_each_Inr_rule [where I = ?I, OF run])
    show "?I [] l w" using k by simp
  next
    fix pre x l1 w1 l2 and w2 :: "('a, 'b, 'c, 'd) World"
    assume i: "?I pre l1 w1" and b: "bind_buffer svc x l1 w1 = (Inr l2, w2)"
    from b have f: "binding_var l2 = binding_var l1 + 1"
      "set_writes l2 = set_writes l1 @
         [\<lparr>dstSet = VK_NULL_HANDLE, dstBinding = binding_var l1,
           dstArrayElement = 0, descriptorCount_w = 1,
           descriptorType_w = buffer_type x, pImageInfo = None,
           pBufferInfo = Some (length (buffer_infos l1))\<rparr>]"
      "length (buffer_infos l2) = Suc (length (buffer_infos l1))"
      "image_infos l2 = image_infos l1"
      by (auto simp: bind_buffer_eq Let_def split: if_splits)
    show "?I (pre @ [x]) l2 w2"
      using i f by (simp add: enumerate_append_eq descriptor_write_def add.commute)
  qed
  then show ?thesis by simp
qed

lemma images_shape:
  assumes run: "for_each (bind_image svc) xs l w = (Inr l', w')"
    and k: "binding_var l = of_nat k0"
  shows "binding_var l' = of_nat (k0 + length xs) \<and>
         length (image_infos l') = length (image_infos l) + length xs \<and>
         buffer_infos l' = buffer_infos l \<and>
         set_writes l' = set_writes l @
           map (\<lambda>(j, x). descriptor_write (k0 + j) eSampledImage
                  (Some (length (image_infos l) + j)) None) (enumerate 0 xs)"
proof -
  let ?I = "\<lambda>(pre :: ResourceLocation list) l1 (w1 :: ('a, 'b, 'c, 'd) World).
      binding_var l1 = of_nat (k0 + length pre) \<and>
      length (image_infos l1) = length (image_infos l) + length pre \<and>
      buffer_infos l1 = buffer_infos l \<and>
      set_writes l1 = set_writes l @
        map (\<lambda>(j, x). descriptor_write (k0 + j) eSampledImage
               (Some (length (image_infos l) + j)) None) (enumerate 0 pre)"
  have "?I ([] @ xs) l' w'"
  proof (rule for_each_Inr_rule [where I = ?I, OF run])
    show "?I [] l w" using k by simp
  next
    fix pre :: "ResourceLocation list" and x l1 w1 l2 and w2 :: "('a, 'b, 'c, 'd) World"
    assume i: "?I pre l1 w1" and b: "bind_image svc x l1 w1 = (Inr l2, w2)"
    from b have f: "binding_var l2 = binding_var l1 + 1"
      "set_writes l2 = set_writes l1 @
         [\<lparr>dstSet = VK_NULL_HANDLE, dstBinding = binding_var l1,
           dstArrayElement = 0, descriptorCount_w = 1,
           descriptorType_w = eSampledImage,
           pImageInfo = Some (length (image_infos l1)), pBufferInfo = None\<rparr>]"
      "length (image_infos l2) = Suc (length (image_infos l1))"
      "buffer_infos l2 = buffer_infos l1"
      by (auto simp: bind_image_eq Let_def split: if_splits)
    show "?I (pre @ [x]) l2 w2"
      using i f by (simp add: enumerate_append_eq descriptor_write_def add.commute)
  qed
  then show ?thesis by simp
qed

lemma samplers_shape:
  assumes run: "for_each (bind_sampler svc) xs l w = (Inr l', w')"
    and k: "binding_var l = of_nat k0"
  shows "binding_var l' = of_nat (k0 + length xs) \<and>
         length (image_infos l') = length (image_infos l) + length xs \<and>
         buffer_infos l' = buffer_infos l \<and>
         set_writes l' = set_writes l @
           map (\<lambda>(j, x). descriptor_write (k0 + j) eSampler
                  (Some (length (image_infos l) + j)) None) (enumerate 0 xs)"
proof -
  let ?I = "\<lambda>(pre :: ResourceLocation list) l1 (w1 :: ('a, 'b, 'c, 'd) World).
      binding_var l1 = of_nat (k0 + length pre) \<and>
      length (image_infos l1) = length (image_infos l) + length pre \<and>
      buffer_infos l1 = buffer_infos l \<and>
      set_writes l1 = set_writes l @
        map (\<lambda>(j, x). descriptor_write (k0 + j) eSampler
               (Some (length (image_infos l) + j)) None) (enumerate 0 pre)"
  have "?I ([] @ xs) l' w'"
  proof (rule for_each_Inr_rule [where I = ?I, OF run])
    show "?I [] l w" using k by simp
  next
    fix pre :: "ResourceLocation list" and x l1 w1 l2 and w2 :: "('a, 'b, 'c, 'd) World"
    assume i: "?I pre l1 w1" and b: "bind_sampler svc x l1 w1 = (Inr l2, w2)"
    from b have f: "binding_var l2 = binding_var l1 + 1"
      "set_writes l2 = set_writes l1 @
         [\<lparr>dstSet = VK_NULL_HANDLE, dstBinding = binding_var l1,
           dstArrayElement = 0, descriptorCount_w = 1,
           descriptorType_w = eSampler,
           pImageInfo = Some (length (image_infos l1)), pBufferInfo = None\<rparr>]"
      "length (image_infos l2) = Suc (length (image_infos l1))"
      "buffer_infos l2 = buffer_infos l1"
      by (auto simp: bind_sampler_eq Let_def split: if_splits)
    show "?I (pre @ [x]) l2 w2"
      using i f by (simp add: enumerate_append_eq descriptor_write_def add.commute)
  qed
  then show ?thesis by simp
qed

subsection \<open>Capacity\<close>

lemma buffers_capacity:
  "(\<exists>l' w'. for_each (bind_buffer svc) bs l w = (Inr l', w')) \<longleftrightarrow>
     (bs = [] \<or> length (buffer_infos l) + length bs \<le> 4)"
proof (induction bs arbitrary: l w)
  case Nil
  show ?case by simp
next
  case (Cons b bs)
  show ?case
  proof (cases "length (buffer_infos l) < 4")
    case False
    then show ?thesis by (simp add: bind_buffer_eq Let_def)
  next
    case True
    then obtain l1 w1 where b: "bind_buffer svc b l w = (Inr l1, w1)"
      and len: "length (buffer_infos l1) = Suc (length (buffer_infos l))"
      by (simp add: bind_buffer_eq Let_def)
    show ?thesis
      using Cons.IH [of l1 w1] True by (auto simp: b len)
  qed
qed

lemma images_capacity:
  "(\<exists>l' w'. for_each (bind_image svc) xs l w = (Inr l', w')) \<longleftrightarrow>
     (xs = [] \<or> length (image_infos l) + length xs \<le> 8)"
proof (induction xs arbitrary: l w)
  case Nil
  show ?case by simp
next
  case (Cons x xs)
  show ?case
  proof (cases "length (image_infos l) < 8")
    case False
    then show ?thesis by (simp add: bind_image_eq Let_def)
  next
    case True
    then obtain l1 w1 where b: "bind_image svc x l w = (Inr l1, w1)"
      and len: "length (image_infos l1) = Suc (length (image_infos l))"
      by (simp add: bind_image_eq Let_def)
    show ?thesis
      using Cons.IH [of l1 w1] True by (auto simp: b len)
  qed
qed

lemma samplers_capacity:
  "(\<exists>l' w'. for_each (bind_sampler svc) xs l w = (Inr l', w')) \<longleftrightarrow>
     (xs = [] \<or> length (image_infos l) + length xs \<le> 8)"
proof (induction xs arbitrary: l w)
  case Nil
  show ?case by simp
next
  case (Cons x xs)
  show ?case
  proof (cases "length (image_infos l) < 8")
    case False
    then show ?thesis by (simp add: bind_sampler_eq Let_def)
  next
    case True
    then obtain l1 w1 where b: "bind_sampler svc x l w = (Inr l1, w1)"
      and len: "length (image_infos l1) = Suc (length (image_infos l))"
      by (simp add: bind_sampler_eq Let_def)
    show ?thesis
      using Cons.IH [of l1 w1] True by (auto simp: b len)
  qed
qed

subsection \<open>The pipeline object and the pushes\<close>

lemma bind_buffer_this: "this_obj (snd (bind_buffer svc b l w)) = this_obj w"
  by (simp add: bind_buffer_eq Let_def)

lemma bind_image_this: "this_obj (snd (bind_image svc b l w)) = this_obj w"
  by (simp add: bind_image_eq Let_def)

lemma bind_sampler_this: "this_obj (snd (bind_sampler svc b l w)) = this_obj w"
  by (simp add: bind_sampler_eq Let_def)

lemma buffers_this: "this_obj (snd (for_each (bind_buffer svc) bs l w)) = this_obj w"
  by (rule for_each_world_rule [where Q = "\<lambda>v. this_obj v = this_obj w"])
    (simp_all add: bind_buffer_this)

lemma images_this: "this_obj (snd (for_each (bind_image svc) bs l w)) = this_obj w"
  by (rule for_each_world_rule [where Q = "\<lambda>v. this_obj v = this_obj w"])
    (simp_all add: bind_image_this)

lemma samplers_this: "this_obj (snd (for_each (bind_sampler svc) bs l w)) = this_obj w"
  by (rule for_each_world_rule [where Q = "\<lambda>v. this_obj v = this_obj w"])
    (simp_all add: bind_sampler_this)

lemma buffers_pushes:
  "filter is_push (trace (snd (for_each (bind_buffer svc) bs l w))) = filter is_push (trace w)"
  by (rule for_each_world_rule
      [where Q = "\<lambda>v. filter is_push (trace v) = filter is_push (trace w)"])
    (simp_all add: bind_buffer_eq Let_def)

lemma images_pushes:
  "filter is_push (trace (snd (for_each (bind_image svc) bs l w))) = filter is_push (trace w)"
  by (rule for_each_world_rule
      [where Q = "\<lambda>v. filter is_push (trace v) = filter is_push (trace w)"])
    (simp_all add: bind_image_eq Let_def)

lemma samplers_pushes:
  "filter is_push (trace (snd (for_each (bind_sampler svc) bs l w))) = filter is_push (trace w)"
  by (rule for_each_world_rule
      [where Q = "\<lambda>v. filter is_push (trace v) = filter is_push (trace w)"])
    (simp_all add: bind_sampler_eq Let_def)

subsection \<open>What the loops record\<close>

lemma map_prefix_snoc:
  "map (\<lambda>j. f (fold G (take j (pre @ [x])) s) ((pre @ [x]) ! j)) [0..<length (pre @ [x])] =
     map (\<lambda>j. f (fold G (take j pre) s) (pre ! j)) [0..<length pre] @ [f (fold G pre s) x]"
  by (simp add: nth_append cong: map_cong)

lemma bind_buffer_step:
  assumes "bind_buffer svc x l1 w1 = (Inr l2, w2)"
  shows "staging w2 = stage_buffer svc x (staging w1)"
    and "buffer_infos l2 = buffer_infos l1 @ [staged_info svc (staging w1) x]"
    and "trace w2 = trace w1 @ buffer_events svc x (mapped_data svc (staging w1) x)"
    and "texture_cache w2 = invalidate svc x (texture_cache w1)"
  using assms
  by (auto simp: bind_buffer_eq Let_def stage_buffer_def staged_info_def buffer_events_def
      mapped_data_def invalidate_def split: if_splits)

lemma bind_image_step:
  assumes "bind_image svc x l1 w1 = (Inr l2, w2)"
  shows "texture_cache w2 = resolve_image svc x (texture_cache w1)"
    and "image_infos l2 = image_infos l1 @ [image_info svc (texture_cache w1) x]"
    and "trace w2 = trace w1 @
           [EvFindImageView (ReadUd_Image svc (sgpr_base x) (dword_offset x))]"
  using assms
  by (auto simp: bind_image_eq Let_def resolve_image_def image_info_def split: if_splits)

lemma bind_sampler_step:
  assumes "bind_sampler svc x l1 w1 = (Inr l2, w2)"
  shows "texture_cache w2 = resolve_sampler svc x (texture_cache w1)"
    and "image_infos l2 = image_infos l1 @ [sampler_info svc (texture_cache w1) x]"
    and "trace w2 = trace w1 @
           [EvGetSampler (ReadUd_Sampler svc (sgpr_base x) (dword_offset x))]"
  using assms
  by (auto simp: bind_sampler_eq Let_def resolve_sampler_def sampler_info_def split: if_splits)

lemma buffers_contents:
  assumes run: "for_each (bind_buffer svc) bs l w = (Inr l', w')"
  shows "staging w' = fold (stage_buffer svc) bs (staging w)"
    and "texture_cache w' = fold (invalidate svc) bs (texture_cache w)"
    and "buffer_infos l' = buffer_infos l @
           map (\<lambda>j. staged_info svc (fold (stage_buffer svc) (take j bs) (staging w)) (bs ! j))
             [0..<length bs]"
    and "trace w' = trace w @
           concat (map (\<lambda>j. buffer_events svc (bs ! j)
                     (mapped_data svc (fold (stage_buffer svc) (take j bs) (staging w)) (bs ! j)))
             [0..<length bs])"
proof -
  let ?I = "\<lambda>(pre :: BufferResource list) l1 w1.
      staging w1 = fold (stage_buffer svc) pre (staging w) \<and>
      texture_cache w1 = fold (invalidate svc) pre (texture_cache w) \<and>
      buffer_infos l1 = buffer_infos l @
        map (\<lambda>j. staged_info svc (fold (stage_buffer svc) (take j pre) (staging w)) (pre ! j))
          [0..<length pre] \<and>
      trace w1 = trace w @
        concat (map (\<lambda>j. buffer_events svc (pre ! j)
                  (mapped_data svc (fold (stage_buffer svc) (take j pre) (staging w)) (pre ! j)))
          [0..<length pre])"
  have "?I ([] @ bs) l' w'"
  proof (rule for_each_Inr_rule [where I = ?I, OF run])
    show "?I [] l w" by simp
  next
    fix pre :: "BufferResource list" and x l1 w1 l2 and w2 :: "('a, 'b, 'c, 'd) World"
    assume i: "?I pre l1 w1" and b: "bind_buffer svc x l1 w1 = (Inr l2, w2)"
    note s = bind_buffer_step [OF b]
    have "staging w2 = fold (stage_buffer svc) (pre @ [x]) (staging w)"
      using i s(1) by simp
    moreover have "texture_cache w2 = fold (invalidate svc) (pre @ [x]) (texture_cache w)"
      using i s(4) by simp
    moreover have "buffer_infos l2 = buffer_infos l @
        map (\<lambda>j. staged_info svc (fold (stage_buffer svc) (take j (pre @ [x])) (staging w))
               ((pre @ [x]) ! j)) [0..<length (pre @ [x])]"
      unfolding map_prefix_snoc [of "staged_info svc" "stage_buffer svc" pre x "staging w"]
      using i s(2) by simp
    moreover have "trace w2 = trace w @
        concat (map (\<lambda>j. buffer_events svc ((pre @ [x]) ! j)
                  (mapped_data svc (fold (stage_buffer svc) (take j (pre @ [x])) (staging w))
                     ((pre @ [x]) ! j))) [0..<length (pre @ [x])])"
      unfolding map_prefix_snoc [of "\<lambda>sb b. buffer_events svc b (mapped_data svc sb b)"
          "stage_buffer svc" pre x "staging w"]
      using i s(3) by simp
    ultimately show "?I (pre @ [x]) l2 w2" by blast
  qed
  then show "staging w' = fold (stage_buffer svc) bs (staging w)"
    and "texture_cache w' = fold (invalidate svc) bs (texture_cache w)"
    and "buffer_infos l' = buffer_infos l @
           map (\<lambda>j. staged_info svc (fold (stage_buffer svc) (take j bs) (staging w)) (bs ! j))
             [0..<length bs]"
    and "trace w' = trace w @
           concat (map (\<lambda>j. buffer_events svc (bs ! j)
                     (mapped_data svc (fold (stage_buffer svc) (take j bs) (staging w)) (bs ! j)))
             [0..<length bs])"
    by simp_all
qed

lemma images_contents:
  assumes run: "for_each (bind_image svc) xs l w = (Inr l', w')"
  shows "texture_cache w' = fold (resolve_image svc) xs (texture_cache w)"
    and "image_infos l' = image_infos l @
           map (\<lambda>j. image_info svc (fold (resolve_image svc) (take j xs) (texture_cache w))
                  (xs ! j)) [0..<length xs]"
    and "trace w' = trace w @
           map (\<lambda>x. EvFindImageView (ReadUd_Image svc (sgpr_base x) (dword_offset x))) xs"
proof -
  let ?I = "\<lambda>(pre :: ResourceLocation list) l1 w1.
      texture_cache w1 = fold (resolve_image svc) pre (texture_cache w) \<and>
      image_infos l1 = image_infos l @
        map (\<lambda>j. image_info svc (fold (resolve_image svc) (take j pre) (texture_cache w))
               (pre ! j)) [0..<length pre] \<and>
      trace w1 = trace w @
        map (\<lambda>x. EvFindImageView (ReadUd_Image svc (sgpr_base x) (dword_offset x))) pre"
  have "?I ([] @ xs) l' w'"
  proof (rule for_each_Inr_rule [where I = ?I, OF run])
    show "?I [] l w" by simp
  next
    fix pre :: "ResourceLocation list" and x l1 w1 l2 and w2 :: "('a, 'b, 'c, 'd) World"
    assume i: "?I pre l1 w1" and b: "bind_image svc x l1 w1 = (Inr l2, w2)"
    note s = bind_image_step [OF b]
    have "texture_cache w2 = fold (resolve_image svc) (pre @ [x]) (texture_cache w)"
      using i s(1) by simp
    moreover have "image_infos l2 = image_infos l @
        map (\<lambda>j. image_info svc (fold (resolve_image svc) (take j (pre @ [x])) (texture_cache w))
               ((pre @ [x]) ! j)) [0..<length (pre @ [x])]"
      unfolding map_prefix_snoc [of "image_info svc" "resolve_image svc" pre x "texture_cache w"]
      using i s(2) by simp
    moreover have "trace w2 = trace w @
        map (\<lambda>x. EvFindImageView (ReadUd_Image svc (sgpr_base x) (dword_offset x))) (pre @ [x])"
      using i s(3) by simp
    ultimately show "?I (pre @ [x]) l2 w2" by blast
  qed
  then show "texture_cache w' = fold (resolve_image svc) xs (texture_cache w)"
    and "image_infos l' = image_infos l @
           map (\<lambda>j. image_info svc (fold (resolve_image svc) (take j xs) (texture_cache w))
                  (xs ! j)) [0..<length xs]"
    and "trace w' = trace w @
           map (\<lambda>x. EvFindImageView (ReadUd_Image svc (sgpr_base x) (dword_offset x))) xs"
    by simp_all
qed

lemma samplers_contents:
  assumes run: "for_each (bind_sampler svc) xs l w = (Inr l', w')"
  shows "texture_cache w' = fold (resolve_sampler svc) xs (texture_cache w)"
    and "image_infos l' = image_infos l @
           map (\<lambda>j. sampler_info svc (fold (resolve_sampler svc) (take j xs) (texture_cache w))
                  (xs ! j)) [0..<length xs]"
    and "trace w' = trace w @
           map (\<lambda>x. EvGetSampler (ReadUd_Sampler svc (sgpr_base x) (dword_offset x))) xs"
proof -
  let ?I = "\<lambda>(pre :: ResourceLocation list) l1 w1.
      texture_cache w1 = fold (resolve_sampler svc) pre (texture_cache w) \<and>
      image_infos l1 = image_infos l @
        map (\<lambda>j. sampler_info svc (fold (resolve_sampler svc) (take j pre) (texture_cache w))
               (pre ! j)) [0..<length pre] \<and>
      trace w1 = trace w @
        map (\<lambda>x. EvGetSampler (ReadUd_Sampler svc (sgpr_base x) (dword_offset x))) pre"
  have "?I ([] @ xs) l' w'"
  proof (rule for_each_Inr_rule [where I = ?I, OF run])
    show "?I [] l w" by simp
  next
    fix pre :: "ResourceLocation list" and x l1 w1 l2 and w2 :: "('a, 'b, 'c, 'd) World"
    assume i: "?I pre l1 w1" and b: "bind_sampler svc x l1 w1 = (Inr l2, w2)"
    note s = bind_sampler_step [OF b]
    have "texture_cache w2 = fold (resolve_sampler svc) (pre @ [x]) (texture_cache w)"
      using i s(1) by simp
    moreover have "image_infos l2 = image_infos l @
        map (\<lambda>j. sampler_info svc (fold (resolve_sampler svc) (take j (pre @ [x])) (texture_cache w))
               ((pre @ [x]) ! j)) [0..<length (pre @ [x])]"
      unfolding map_prefix_snoc [of "sampler_info svc" "resolve_sampler svc" pre x "texture_cache w"]
      using i s(2) by simp
    moreover have "trace w2 = trace w @
        map (\<lambda>x. EvGetSampler (ReadUd_Sampler svc (sgpr_base x) (dword_offset x))) (pre @ [x])"
      using i s(3) by simp
    ultimately show "?I (pre @ [x]) l2 w2" by blast
  qed
  then show "texture_cache w' = fold (resolve_sampler svc) xs (texture_cache w)"
    and "image_infos l' = image_infos l @
           map (\<lambda>j. sampler_info svc (fold (resolve_sampler svc) (take j xs) (texture_cache w))
                  (xs ! j)) [0..<length xs]"
    and "trace w' = trace w @
           map (\<lambda>x. EvGetSampler (ReadUd_Sampler svc (sgpr_base x) (dword_offset x))) xs"
    by simp_all
qed

subsection \<open>The three loops together\<close>

lemma record_bindings_loops:
  "record_bindings svc w =
     (case for_each (bind_buffer svc) (buffers (info (this_obj w))) l0 w of
        (Inl e, w1) \<Rightarrow> (Inl e, w1)
      | (Inr l1, w1) \<Rightarrow>
          (case for_each (bind_image svc) (images (info (this_obj w))) l1 w1 of
             (Inl e, w2) \<Rightarrow> (Inl e, w2)
           | (Inr l2, w2) \<Rightarrow>
               for_each (bind_sampler svc) (samplers (info (this_obj w))) l2 w2))"
proof -
  obtain r1 w1 where b: "for_each (bind_buffer svc) (buffers (info (this_obj w))) l0 w = (r1, w1)"
    by (cases "for_each (bind_buffer svc) (buffers (info (this_obj w))) l0 w")
  have t1: "this_obj w1 = this_obj w"
    using buffers_this [of svc "buffers (info (this_obj w))" l0 w] b by simp
  show ?thesis
  proof (cases r1)
    case (Inl e)
    with b show ?thesis
      by (simp add: record_bindings_def Let_def l0_def [symmetric])
  next
    case l1: (Inr l1)
    obtain r2 w2 where i: "for_each (bind_image svc) (images (info (this_obj w))) l1 w1 = (r2, w2)"
      by (cases "for_each (bind_image svc) (images (info (this_obj w))) l1 w1")
    have t2: "this_obj w2 = this_obj w"
      using images_this [of svc "images (info (this_obj w))" l1 w1] i t1 by simp
    show ?thesis
    proof (cases r2)
      case (Inl e)
      with b l1 i t1 show ?thesis
        by (simp add: record_bindings_def Let_def l0_def [symmetric])
    next
      case (Inr l2)
      with b l1 i t1 t2 show ?thesis
        by (simp add: record_bindings_def Let_def l0_def [symmetric])
    qed
  qed
qed

lemma record_bindings_InrE:
  assumes "record_bindings svc w = (Inr l, w')"
  obtains l1 w1 l2 w2 where
    "for_each (bind_buffer svc) (buffers (info (this_obj w))) l0 w = (Inr l1, w1)"
    "for_each (bind_image svc) (images (info (this_obj w))) l1 w1 = (Inr l2, w2)"
    "for_each (bind_sampler svc) (samplers (info (this_obj w))) l2 w2 = (Inr l, w')"
  using assms unfolding record_bindings_loops
  by (auto split: prod.splits sum.splits)

lemma record_bindings_this: "this_obj (snd (record_bindings svc w)) = this_obj w"
proof -
  obtain r1 w1 where b: "for_each (bind_buffer svc) (buffers (info (this_obj w))) l0 w = (r1, w1)"
    by (cases "for_each (bind_buffer svc) (buffers (info (this_obj w))) l0 w")
  have t1: "this_obj w1 = this_obj w"
    using buffers_this [of svc "buffers (info (this_obj w))" l0 w] b by simp
  show ?thesis
  proof (cases r1)
    case (Inl e)
    with b t1 show ?thesis by (simp add: record_bindings_loops)
  next
    case l1: (Inr l1)
    obtain r2 w2 where i: "for_each (bind_image svc) (images (info (this_obj w))) l1 w1 = (r2, w2)"
      by (cases "for_each (bind_image svc) (images (info (this_obj w))) l1 w1")
    have t2: "this_obj w2 = this_obj w"
      using images_this [of svc "images (info (this_obj w))" l1 w1] i t1 by simp
    show ?thesis
    proof (cases r2)
      case (Inl e)
      with b l1 i t2 show ?thesis by (simp add: record_bindings_loops)
    next
      case l2: (Inr l2)
      have "this_obj (snd (for_each (bind_sampler svc) (samplers (info (this_obj w))) l2 w2))
              = this_obj w"
        using samplers_this [of svc "samplers (info (this_obj w))" l2 w2] t2 by simp
      with b l1 i l2 show ?thesis by (simp add: record_bindings_loops)
    qed
  qed
qed

lemma record_bindings_pushes:
  "filter is_push (trace (snd (record_bindings svc w))) = filter is_push (trace w)"
proof -
  obtain r1 w1 where b: "for_each (bind_buffer svc) (buffers (info (this_obj w))) l0 w = (r1, w1)"
    by (cases "for_each (bind_buffer svc) (buffers (info (this_obj w))) l0 w")
  have t1: "filter is_push (trace w1) = filter is_push (trace w)"
    using buffers_pushes [of svc "buffers (info (this_obj w))" l0 w] b by simp
  show ?thesis
  proof (cases r1)
    case (Inl e)
    with b t1 show ?thesis by (simp add: record_bindings_loops)
  next
    case l1: (Inr l1)
    obtain r2 w2 where i: "for_each (bind_image svc) (images (info (this_obj w))) l1 w1 = (r2, w2)"
      by (cases "for_each (bind_image svc) (images (info (this_obj w))) l1 w1")
    have t2: "filter is_push (trace w2) = filter is_push (trace w)"
      using images_pushes [of svc "images (info (this_obj w))" l1 w1] i t1 by simp
    show ?thesis
    proof (cases r2)
      case (Inl e)
      with b l1 i t2 show ?thesis by (simp add: record_bindings_loops)
    next
      case l2: (Inr l2)
      have "filter is_push (trace (snd (for_each (bind_sampler svc)
                (samplers (info (this_obj w))) l2 w2))) = filter is_push (trace w)"
        using samplers_pushes [of svc "samplers (info (this_obj w))" l2 w2] t2 by simp
      with b l1 i l2 show ?thesis by (simp add: record_bindings_loops)
    qed
  qed
qed

lemma record_bindings_shape:
  assumes run: "record_bindings svc w = (Inr l, w')"
  shows "binding_var l = of_nat (length (buffers (info (this_obj w))) +
            length (images (info (this_obj w))) + length (samplers (info (this_obj w))))"
    and "length (buffer_infos l) = length (buffers (info (this_obj w)))"
    and "length (image_infos l) =
           length (images (info (this_obj w))) + length (samplers (info (this_obj w)))"
    and "set_writes l =
           map (\<lambda>(j, b). descriptor_write j (buffer_type b) None (Some j))
             (enumerate 0 (buffers (info (this_obj w)))) @
           map (\<lambda>(j, x). descriptor_write (length (buffers (info (this_obj w))) + j)
                  eSampledImage (Some j) None)
             (enumerate 0 (images (info (this_obj w)))) @
           map (\<lambda>(j, x). descriptor_write (length (buffers (info (this_obj w))) +
                    length (images (info (this_obj w))) + j)
                  eSampler (Some (length (images (info (this_obj w))) + j)) None)
             (enumerate 0 (samplers (info (this_obj w))))"
proof -
  from run obtain l1 w1 l2 w2 where
    b: "for_each (bind_buffer svc) (buffers (info (this_obj w))) l0 w = (Inr l1, w1)" and
    i: "for_each (bind_image svc) (images (info (this_obj w))) l1 w1 = (Inr l2, w2)" and
    s: "for_each (bind_sampler svc) (samplers (info (this_obj w))) l2 w2 = (Inr l, w')"
    by (rule record_bindings_InrE)
  have k0: "binding_var l0 = of_nat 0" by (simp add: l0_def)
  note sb = buffers_shape [OF b k0]
  from sb have k1: "binding_var l1 = of_nat (length (buffers (info (this_obj w))))" by simp
  note si = images_shape [OF i k1]
  from si have k2: "binding_var l2 = of_nat (length (buffers (info (this_obj w))) +
      length (images (info (this_obj w))))" by simp
  note ss = samplers_shape [OF s k2]
  show "binding_var l = of_nat (length (buffers (info (this_obj w))) +
            length (images (info (this_obj w))) + length (samplers (info (this_obj w))))"
    using ss by simp
  show "length (buffer_infos l) = length (buffers (info (this_obj w)))"
    using sb si ss by (simp add: l0_def)
  show "length (image_infos l) =
           length (images (info (this_obj w))) + length (samplers (info (this_obj w)))"
    using sb si ss by (simp add: l0_def)
  have "set_writes l1 = map (\<lambda>(j, b). descriptor_write j (buffer_type b) None (Some j))
             (enumerate 0 (buffers (info (this_obj w))))"
    using sb by (simp add: l0_def)
  moreover have "set_writes l2 = set_writes l1 @
      map (\<lambda>(j, x). descriptor_write (length (buffers (info (this_obj w))) + j)
                  eSampledImage (Some j) None)
             (enumerate 0 (images (info (this_obj w))))"
    using sb si by (simp add: l0_def)
  moreover have "set_writes l = set_writes l2 @
      map (\<lambda>(j, x). descriptor_write (length (buffers (info (this_obj w))) +
                    length (images (info (this_obj w))) + j)
                  eSampler (Some (length (images (info (this_obj w))) + j)) None)
             (enumerate 0 (samplers (info (this_obj w))))"
    using sb si ss by (simp add: l0_def)
  ultimately show "set_writes l =
           map (\<lambda>(j, b). descriptor_write j (buffer_type b) None (Some j))
             (enumerate 0 (buffers (info (this_obj w)))) @
           map (\<lambda>(j, x). descriptor_write (length (buffers (info (this_obj w))) + j)
                  eSampledImage (Some j) None)
             (enumerate 0 (images (info (this_obj w)))) @
           map (\<lambda>(j, x). descriptor_write (length (buffers (info (this_obj w))) +
                    length (images (info (this_obj w))) + j)
                  eSampler (Some (length (images (info (this_obj w))) + j)) None)
             (enumerate 0 (samplers (info (this_obj w))))"
    by simp
qed

lemma record_bindings_capacity:
  "(\<exists>l w'. record_bindings svc w = (Inr l, w')) \<longleftrightarrow>
     length (buffers (info (this_obj w))) \<le> 4 \<and>
     length (images (info (this_obj w))) + length (samplers (info (this_obj w))) \<le> 8"
  (is "?L \<longleftrightarrow> ?R")
proof
  assume ?L
  then obtain l w' where run: "record_bindings svc w = (Inr l, w')" by blast
  from run obtain l1 w1 l2 w2 where
    b: "for_each (bind_buffer svc) (buffers (info (this_obj w))) l0 w = (Inr l1, w1)" and
    i: "for_each (bind_image svc) (images (info (this_obj w))) l1 w1 = (Inr l2, w2)" and
    s: "for_each (bind_sampler svc) (samplers (info (this_obj w))) l2 w2 = (Inr l, w')"
    by (rule record_bindings_InrE)
  have k0: "binding_var l0 = of_nat 0" by (simp add: l0_def)
  note sb = buffers_shape [OF b k0]
  from sb have k1: "binding_var l1 = of_nat (length (buffers (info (this_obj w))))" by simp
  note si = images_shape [OF i k1]
  have nb: "length (buffers (info (this_obj w))) \<le> 4"
    using buffers_capacity [of svc "buffers (info (this_obj w))" l0 w] b
    by (auto simp: l0_def)
  have li2: "length (image_infos l2) = length (images (info (this_obj w)))"
    using sb si by (simp add: l0_def)
  have ni: "length (images (info (this_obj w))) \<le> 8"
    using images_capacity [of svc "images (info (this_obj w))" l1 w1] i sb
    by (auto simp: l0_def)
  have "samplers (info (this_obj w)) = [] \<or>
      length (images (info (this_obj w))) + length (samplers (info (this_obj w))) \<le> 8"
    using samplers_capacity [of svc "samplers (info (this_obj w))" l2 w2] s li2
    by auto
  with nb ni show ?R by auto
next
  assume r: ?R
  from r obtain l1 w1 where
    b: "for_each (bind_buffer svc) (buffers (info (this_obj w))) l0 w = (Inr l1, w1)"
    using buffers_capacity [of svc "buffers (info (this_obj w))" l0 w]
    by (auto simp: l0_def)
  have k0: "binding_var l0 = of_nat 0" by (simp add: l0_def)
  note sb = buffers_shape [OF b k0]
  from sb have k1: "binding_var l1 = of_nat (length (buffers (info (this_obj w))))" by simp
  have "image_infos l1 = []" using sb by (simp add: l0_def)
  with r obtain l2 w2 where
    i: "for_each (bind_image svc) (images (info (this_obj w))) l1 w1 = (Inr l2, w2)"
    using images_capacity [of svc "images (info (this_obj w))" l1 w1]
    by auto
  note si = images_shape [OF i k1]
  have li2: "length (image_infos l2) = length (images (info (this_obj w)))"
    using sb si by (simp add: l0_def)
  with r obtain l w' where
    s: "for_each (bind_sampler svc) (samplers (info (this_obj w))) l2 w2 = (Inr l, w')"
    using samplers_capacity [of svc "samplers (info (this_obj w))" l2 w2]
    by auto
  from b i s have "record_bindings svc w = (Inr l, w')"
    by (simp add: record_bindings_loops)
  then show ?L by blast
qed

lemma record_bindings_contents:
  assumes run: "record_bindings svc w = (Inr l, w')"
  shows "buffer_infos l =
           map (\<lambda>i. staged_info svc (staging_before svc w i) (the_buffers w ! i))
             [0..<length (the_buffers w)]"
    and "image_infos l =
           map (\<lambda>j. image_info svc (cache_before_image svc w j) (the_images w ! j))
             [0..<length (the_images w)] @
           map (\<lambda>k. sampler_info svc (cache_before_sampler svc w k) (the_samplers w ! k))
             [0..<length (the_samplers w)]"
    and "trace w' = trace w @
           concat (map (\<lambda>i. buffer_events svc (the_buffers w ! i)
                     (mapped_data svc (staging_before svc w i) (the_buffers w ! i)))
             [0..<length (the_buffers w)]) @
           map (\<lambda>x. EvFindImageView (ReadUd_Image svc (sgpr_base x) (dword_offset x)))
             (the_images w) @
           map (\<lambda>x. EvGetSampler (ReadUd_Sampler svc (sgpr_base x) (dword_offset x)))
             (the_samplers w)"
    and "texture_cache w' =
           fold (resolve_sampler svc) (the_samplers w)
             (fold (resolve_image svc) (the_images w)
               (fold (invalidate svc) (the_buffers w) (texture_cache w)))"
proof -
  from run obtain l1 w1 l2 w2 where
    b: "for_each (bind_buffer svc) (the_buffers w) l0 w = (Inr l1, w1)" and
    i: "for_each (bind_image svc) (the_images w) l1 w1 = (Inr l2, w2)" and
    s: "for_each (bind_sampler svc) (the_samplers w) l2 w2 = (Inr l, w')"
    by (rule record_bindings_InrE)
  have k0: "binding_var l0 = of_nat 0" by (simp add: l0_def)
  note sb = buffers_shape [OF b k0]
  from sb have k1: "binding_var l1 = of_nat (length (the_buffers w))" by simp
  note si = images_shape [OF i k1]
  from si have k2: "binding_var l2 = of_nat (length (the_buffers w) + length (the_images w))"
    by simp
  note ss = samplers_shape [OF s k2]
  note cb = buffers_contents [OF b]
  note ci = images_contents [OF i]
  note cs = samplers_contents [OF s]
  have "buffer_infos l = buffer_infos l1"
    using si ss by simp
  then show "buffer_infos l =
           map (\<lambda>i. staged_info svc (staging_before svc w i) (the_buffers w ! i))
             [0..<length (the_buffers w)]"
    by (simp add: cb(3) l0_def staging_before_def)
  have "image_infos l1 = []"
    using sb by (simp add: l0_def)
  then show "image_infos l =
           map (\<lambda>j. image_info svc (cache_before_image svc w j) (the_images w ! j))
             [0..<length (the_images w)] @
           map (\<lambda>k. sampler_info svc (cache_before_sampler svc w k) (the_samplers w ! k))
             [0..<length (the_samplers w)]"
    by (simp add: cs(2) ci(2) ci(1) cb(2) cache_before_image_def cache_before_sampler_def)
  show "trace w' = trace w @
           concat (map (\<lambda>i. buffer_events svc (the_buffers w ! i)
                     (mapped_data svc (staging_before svc w i) (the_buffers w ! i)))
             [0..<length (the_buffers w)]) @
           map (\<lambda>x. EvFindImageView (ReadUd_Image svc (sgpr_base x) (dword_offset x)))
             (the_images w) @
           map (\<lambda>x. EvGetSampler (ReadUd_Sampler svc (sgpr_base x) (dword_offset x)))
             (the_samplers w)"
    by (simp add: cs(3) ci(3) cb(4) staging_before_def)
  show "texture_cache w' =
           fold (resolve_sampler svc) (the_samplers w)
             (fold (resolve_image svc) (the_images w)
               (fold (invalidate svc) (the_buffers w) (texture_cache w)))"
    by (simp only: cs(1) ci(1) cb(2))
qed

lemma record_bindings_nth:
  assumes run: "record_bindings svc w = (Inr l, w')"
  shows "i < length (the_buffers w) \<Longrightarrow>
           set_writes l ! i = descriptor_write i (buffer_type (the_buffers w ! i)) None (Some i)"
    and "j < length (the_images w) \<Longrightarrow>
           set_writes l ! (length (the_buffers w) + j) =
             descriptor_write (length (the_buffers w) + j) eSampledImage (Some j) None"
    and "k < length (the_samplers w) \<Longrightarrow>
           set_writes l ! (length (the_buffers w) + length (the_images w) + k) =
             descriptor_write (length (the_buffers w) + length (the_images w) + k) eSampler
               (Some (length (the_images w) + k)) None"
  by (simp_all add: record_bindings_shape(4) [OF run] nth_append nth_enumerate_eq)

lemma push_bindings_this: "this_obj (push_bindings svc l w) = this_obj w"
  by (simp add: push_bindings_def)

subsection \<open>Projections of the writes, and the alignment of the offsets\<close>

lemma narrowed_offset_aligned:
  fixes off :: u64
  assumes "64 dvd unat off"
  shows "64 dvd unat (ucast (ucast off :: u32) :: u64)"
proof -
  have "unat (ucast (ucast off :: u32) :: u64) = unat off mod 2 ^ 32"
    by (simp add: unsigned_ucast_eq take_bit_eq_mod unat_mod_distrib)
  moreover have "(64 :: nat) dvd 2 ^ 32"
    by simp
  ultimately show ?thesis
    using assms by (simp add: dvd_mod)
qed

lemma BindResources_Inr:
  "record_bindings svc w = (Inr l, w') \<Longrightarrow>
     BindResources svc w = (Inr (), push_bindings svc l w')"
  by (simp add: BindResources_def)

lemma length_set_writes:
  assumes "record_bindings svc w = (Inr l, w')"
  shows "length (set_writes l) =
           length (the_buffers w) + length (the_images w) + length (the_samplers w)"
  by (simp add: record_bindings_shape(4) [OF assms])

lemma map_dstBinding_writes:
  assumes "record_bindings svc w = (Inr l, w')"
  shows "map dstBinding (set_writes l) =
           map of_nat [0..<length (the_buffers w) + length (the_images w) + length (the_samplers w)]"
proof -
  let ?nb = "length (the_buffers w)" and ?ni = "length (the_images w)"
    and ?ns = "length (the_samplers w)"
  have "map dstBinding (set_writes l) =
     map of_nat [0..<0 + ?nb] @ map (\<lambda>j. of_nat (?nb + j)) [0..<0 + ?ni] @
     map (\<lambda>j. of_nat (?nb + ?ni + j)) [0..<0 + ?ns]"
    using map_fst_enum [of "\<lambda>j. (of_nat ?nb :: u32) + of_nat j" 0 "the_images w"]
      map_fst_enum [of "\<lambda>j. (of_nat ?nb :: u32) + of_nat ?ni + of_nat j" 0 "the_samplers w"]
    by (simp add: record_bindings_shape(4) [OF assms] descriptor_write_def case_prod_unfold
        comp_def map_fst_enum)
  also have "map (\<lambda>j. of_nat (?nb + j) :: u32) [0..<0 + ?ni] = map of_nat [?nb..<?nb + ?ni]"
    by (simp add: map_add_upt [symmetric] add.commute)
  also have "map (\<lambda>j. of_nat (?nb + ?ni + j) :: u32) [0..<0 + ?ns] =
      map of_nat [?nb + ?ni..<?nb + ?ni + ?ns]"
    by (simp add: map_add_upt [symmetric] add.commute)
  finally show ?thesis
    by (simp only: map_append [symmetric] upt_three add_0)
qed

lemma map_type_writes:
  assumes "record_bindings svc w = (Inr l, w')"
  shows "map descriptorType_w (set_writes l) =
           map buffer_type (the_buffers w) @ replicate (length (the_images w)) eSampledImage @
           replicate (length (the_samplers w)) eSampler"
  by (simp add: record_bindings_shape(4) [OF assms] descriptor_write_def case_prod_unfold
      comp_def map_snd_enum map_replicate_const)

lemma staged_info_range:
  "range_bi (staged_info svc sb b) =
     ucast (GetSize (ReadUd_Buffer svc (sgpr_base b) (dword_offset b)))"
  by (simp add: staged_info_def Let_def)

lemma staged_info_aligned:
  assumes "Map_aligned svc"
  shows "64 dvd unat (offset (staged_info svc sb b))"
proof -
  have m: "unat a dvd unat (fst (snd (fst (StreamBuffer_Map svc s n a))))"
    if "a \<noteq> 0" for s n a
    using assms that by (simp add: Map_aligned_def)
  have "64 dvd unat (fst (snd (fst (StreamBuffer_Map svc sb
               (ucast (GetSize (ReadUd_Buffer svc (sgpr_base b) (dword_offset b))))
               MinUniformAlignment))))"
    using m [of MinUniformAlignment sb] by (simp add: MinUniformAlignment_def)
  then have "64 dvd unat (ucast (ucast (fst (snd (fst (StreamBuffer_Map svc sb
               (ucast (GetSize (ReadUd_Buffer svc (sgpr_base b) (dword_offset b))))
               MinUniformAlignment)))) :: u32) :: u64)"
    by (rule narrowed_offset_aligned)
  then show ?thesis
    by (simp add: staged_info_def Let_def)
qed

subsection \<open>The worked dispatch\<close>

lemma example_Map_aligned: "Map_aligned example_services"
proof -
  have "unat a dvd unat (fst (snd (fst (example_Map sb n a))))" if "a \<noteq> 0" for sb n a
  proof -
    define aligned where "aligned = (sb + unat a - 1) div unat a * unat a"
    define off where "off = (if 65536 < aligned + unat n then 0 else aligned)"
    have "off < 2 ^ 64"
      by (simp add: off_def)
    then have "unat (of_nat off :: u64) = off"
      by (simp add: unat_of_nat)
    moreover have "unat a dvd off"
      by (simp add: off_def aligned_def)
    moreover have "fst (snd (fst (example_Map sb n a))) = of_nat off"
      using that by (simp add: example_Map_def Let_def off_def aligned_def)
    ultimately show ?thesis by simp
  qed
  then show ?thesis
    by (simp add: Map_aligned_def example_services_def)
qed

lemma example_record_bindings:
  "record_bindings example_services example_world = (Inr example_locals, example_world_bound)"
  by (simp add: record_bindings_def example_services_def example_world_def example_info_def
     bind_buffer_def bind_image_def bind_sampler_def map_staging_def emplace_back_def
     example_Map_def MinUniformAlignment_def VK_NULL_HANDLE_def Let_def
     example_locals_def example_world_bound_def)

lemma overfull_record_bindings:
  "fst (record_bindings example_services overfull_world) = Inl bad_alloc"
proof -
  have n: "\<not> (\<exists>l w'. record_bindings example_services overfull_world = (Inr l, w'))"
    by (simp add: record_bindings_capacity overfull_world_def)
  obtain r w' where rw: "record_bindings example_services overfull_world = (r, w')"
    by (cases "record_bindings example_services overfull_world")
  show ?thesis
  proof (cases r)
    case (Inl e)
    moreover have "e = bad_alloc" by (cases e) simp
    ultimately show ?thesis using rw by simp
  next
    case (Inr l)
    with rw n show ?thesis by blast
  qed
qed

subsection \<open>A result of the pipeline creation that comes back\<close>

lemma ctor_compile_required_unreachable:
  assumes "fst (vkCreateComputePipelines dev cache
             (compute_pipeline_ci m (createPipelineLayoutUnique dev
                (layout_info (createDescriptorSetLayoutUnique dev (desc_layout_ci i)))))) =
           ePipelineCompileRequiredEXT"
  shows "fst (ComputePipeline_ctor dev cache i m) =
           Unreachable ''Graphics pipeline creation failed!''"
  using assms
  by (auto simp: ComputePipeline_ctor_def createComputePipelineUnique_def Let_def
      split: prod.split)

subsection \<open>The arrays never grow past their capacity\<close>








subsection \<open>The numbering of the entries\<close>

lemma enumerate_map: "enumerate k (map g xs) = map (\<lambda>(p, x). (p, g x)) (enumerate k xs)"
  by (induction xs arbitrary: k) simp_all

lemma enumerate_shift:
  "map (\<lambda>(j, x). f (k + j) x) (enumerate m xs) = map (\<lambda>(p, x). f p x) (enumerate (k + m) xs)"
  by (induction xs arbitrary: m) simp_all

lemma spec_binding_assignment_closed:
  "spec_binding_assignment i =
     map (\<lambda>(p, b). (p, BufferEntry b)) (enumerate 0 (buffers i)) @
     map (\<lambda>(p, x). (p, ImageEntry x)) (enumerate (length (buffers i)) (images i)) @
     map (\<lambda>(p, x). (p, SamplerEntry x))
       (enumerate (length (buffers i) + length (images i)) (samplers i))"
  by (simp add: spec_binding_assignment_def spec_descriptor_entries_def enumerate_append_eq enumerate_map)

lemma layout_by_assignment:
  "layout_bindings i =
     map (\<lambda>(p, e). layout_entry (of_nat p) (entry_type e)) (spec_binding_assignment i)"
  by (simp add: layout_bindings_closed spec_binding_assignment_closed case_prod_unfold comp_def)

lemma assignment_writes:
  "map (\<lambda>(p, e). entry_write (length (buffers i)) p e) (spec_binding_assignment i) =
     map (\<lambda>(j, b). descriptor_write j (buffer_type b) None (Some j)) (enumerate 0 (buffers i)) @
     map (\<lambda>(j, x). descriptor_write (length (buffers i) + j) eSampledImage (Some j) None)
       (enumerate 0 (images i)) @
     map (\<lambda>(j, x). descriptor_write (length (buffers i) + length (images i) + j) eSampler
            (Some (length (images i) + j)) None)
       (enumerate 0 (samplers i))"
proof -
  let ?nb = "length (buffers i)" and ?ni = "length (images i)"
  have 1: "map (\<lambda>(j, x). descriptor_write (?nb + j) eSampledImage (Some j) None)
             (enumerate 0 (images i)) =
           map (\<lambda>(p, x). descriptor_write p eSampledImage (Some (p - ?nb)) None)
             (enumerate ?nb (images i))"
    using enumerate_shift [of "\<lambda>p x. descriptor_write p eSampledImage (Some (p - ?nb)) None"
        ?nb 0 "images i"]
    by simp
  have 2: "map (\<lambda>(j, x). descriptor_write (?nb + ?ni + j) eSampler (Some (?ni + j)) None)
             (enumerate 0 (samplers i)) =
           map (\<lambda>(p, x). descriptor_write p eSampler (Some (p - ?nb)) None)
             (enumerate (?nb + ?ni) (samplers i))"
    using enumerate_shift [of "\<lambda>p x. descriptor_write p eSampler (Some (p - ?nb)) None"
        "?nb + ?ni" 0 "samplers i"]
    by (simp add: add.assoc)
  show ?thesis
    unfolding 1 2
    by (simp add: spec_binding_assignment_closed case_prod_unfold comp_def)
qed

lemma writes_by_assignment:
  assumes "record_bindings svc w = (Inr l, w')"
  shows "set_writes l =
           map (\<lambda>(p, e). entry_write (length (the_buffers w)) p e)
             (spec_binding_assignment (info (this_obj w)))"
  unfolding assignment_writes by (rule record_bindings_shape(4) [OF assms])

subsection \<open>Every run, completed or not\<close>

lemma after_buffer_eq:
  "after_buffer svc b w =
     w\<lparr>texture_cache := invalidate svc b (texture_cache w),
       staging := stage_buffer svc b (staging w),
       trace := trace w @ buffer_events svc b (mapped_data svc (staging w) b)\<rparr>"
  by (simp add: after_buffer_def bind_buffer_eq Let_def l0_def invalidate_def stage_buffer_def
      buffer_events_def mapped_data_def)

lemma after_image_eq:
  "after_image svc x w =
     w\<lparr>texture_cache := resolve_image svc x (texture_cache w),
       trace := trace w @ [EvFindImageView (ReadUd_Image svc (sgpr_base x) (dword_offset x))]\<rparr>"
  by (simp add: after_image_def bind_image_eq Let_def l0_def resolve_image_def)

lemma after_sampler_eq:
  "after_sampler svc x w =
     w\<lparr>texture_cache := resolve_sampler svc x (texture_cache w),
       trace := trace w @ [EvGetSampler (ReadUd_Sampler svc (sgpr_base x) (dword_offset x))]\<rparr>"
  by (simp add: after_sampler_def bind_sampler_eq Let_def l0_def resolve_sampler_def)

lemma after_buffer_fields:
  "trace (after_buffer svc b w) = trace w @ buffer_events svc b (mapped_data svc (staging w) b)"
  "staging (after_buffer svc b w) = stage_buffer svc b (staging w)"
  "texture_cache (after_buffer svc b w) = invalidate svc b (texture_cache w)"
  "this_obj (after_buffer svc b w) = this_obj w"
  by (simp_all add: after_buffer_eq)

lemma take_min_length: "take (min (length xs) k) xs = take k xs"
  by (cases "length xs \<le> k") (simp_all add: min_def)

lemma bind_buffer_snd: "snd (bind_buffer svc b l w) = after_buffer svc b w"
  by (simp add: after_buffer_def bind_buffer_eq Let_def)

lemma bind_image_snd: "snd (bind_image svc x l w) = after_image svc x w"
  by (simp add: after_image_def bind_image_eq Let_def)

lemma bind_sampler_snd: "snd (bind_sampler svc x l w) = after_sampler svc x w"
  by (simp add: after_sampler_def bind_sampler_eq Let_def)

lemma buffers_world_all:
  "snd (for_each (bind_buffer svc) bs l w) =
     fold (after_buffer svc) (take (Suc (4 - length (buffer_infos l))) bs) w"
proof (induction bs arbitrary: l w)
  case Nil
  show ?case by simp
next
  case (Cons b bs)
  show ?case
  proof (cases "length (buffer_infos l) < 4")
    case False
    have "snd (for_each (bind_buffer svc) (b # bs) l w) = snd (bind_buffer svc b l w)"
      using False by (simp add: bind_buffer_eq Let_def)
    with False show ?thesis by (simp add: bind_buffer_snd)
  next
    case True
    then obtain l1 w1 where b: "bind_buffer svc b l w = (Inr l1, w1)"
      and len: "length (buffer_infos l1) = Suc (length (buffer_infos l))"
      by (simp add: bind_buffer_eq Let_def)
    have w1: "w1 = after_buffer svc b w"
      using bind_buffer_snd [of svc b l w] b by simp
    have k: "4 - length (buffer_infos l) = Suc (4 - length (buffer_infos l1))"
      using True len by simp
    show ?thesis
      using Cons.IH [of l1 w1] by (simp add: b w1 k)
  qed
qed

lemma images_world_all:
  "snd (for_each (bind_image svc) xs l w) =
     fold (after_image svc) (take (Suc (8 - length (image_infos l))) xs) w"
proof (induction xs arbitrary: l w)
  case Nil
  show ?case by simp
next
  case (Cons x xs)
  show ?case
  proof (cases "length (image_infos l) < 8")
    case False
    have "snd (for_each (bind_image svc) (x # xs) l w) = snd (bind_image svc x l w)"
      using False by (simp add: bind_image_eq Let_def)
    with False show ?thesis by (simp add: bind_image_snd)
  next
    case True
    then obtain l1 w1 where b: "bind_image svc x l w = (Inr l1, w1)"
      and len: "length (image_infos l1) = Suc (length (image_infos l))"
      by (simp add: bind_image_eq Let_def)
    have w1: "w1 = after_image svc x w"
      using bind_image_snd [of svc x l w] b by simp
    have k: "8 - length (image_infos l) = Suc (8 - length (image_infos l1))"
      using True len by simp
    show ?thesis
      using Cons.IH [of l1 w1] by (simp add: b w1 k)
  qed
qed

lemma samplers_world_all:
  "snd (for_each (bind_sampler svc) xs l w) =
     fold (after_sampler svc) (take (Suc (8 - length (image_infos l))) xs) w"
proof (induction xs arbitrary: l w)
  case Nil
  show ?case by simp
next
  case (Cons x xs)
  show ?case
  proof (cases "length (image_infos l) < 8")
    case False
    have "snd (for_each (bind_sampler svc) (x # xs) l w) = snd (bind_sampler svc x l w)"
      using False by (simp add: bind_sampler_eq Let_def)
    with False show ?thesis by (simp add: bind_sampler_snd)
  next
    case True
    then obtain l1 w1 where b: "bind_sampler svc x l w = (Inr l1, w1)"
      and len: "length (image_infos l1) = Suc (length (image_infos l))"
      by (simp add: bind_sampler_eq Let_def)
    have w1: "w1 = after_sampler svc x w"
      using bind_sampler_snd [of svc x l w] b by simp
    have k: "8 - length (image_infos l) = Suc (8 - length (image_infos l1))"
      using True len by simp
    show ?thesis
      using Cons.IH [of l1 w1] by (simp add: b w1 k)
  qed
qed

lemma fold_after_buffer:
  "staging (fold (after_buffer svc) bs w) = fold (stage_buffer svc) bs (staging w)"
  "texture_cache (fold (after_buffer svc) bs w) = fold (invalidate svc) bs (texture_cache w)"
  "this_obj (fold (after_buffer svc) bs w) = this_obj w"
  by (induction bs arbitrary: w) (simp_all add: after_buffer_eq)

lemma fold_after_buffer_trace:
  "trace (fold (after_buffer svc) bs w) = trace w @
     concat (map (\<lambda>j. buffer_events svc (bs ! j)
               (mapped_data svc (fold (stage_buffer svc) (take j bs) (staging w)) (bs ! j)))
       [0..<length bs])"
proof (induction bs rule: rev_induct)
  case Nil
  show ?case by simp
next
  case (snoc x pre)
  show ?case
    unfolding map_prefix_snoc [of "\<lambda>sb b. buffer_events svc b (mapped_data svc sb b)"
        "stage_buffer svc" pre x "staging w"]
    using snoc by (simp add: after_buffer_fields fold_after_buffer)
qed

lemma fold_after_image:
  "staging (fold (after_image svc) xs w) = staging w"
  "texture_cache (fold (after_image svc) xs w) = fold (resolve_image svc) xs (texture_cache w)"
  "this_obj (fold (after_image svc) xs w) = this_obj w"
  "trace (fold (after_image svc) xs w) = trace w @
     map (\<lambda>x. EvFindImageView (ReadUd_Image svc (sgpr_base x) (dword_offset x))) xs"
  by (induction xs arbitrary: w) (simp_all add: after_image_eq)

lemma fold_after_sampler:
  "staging (fold (after_sampler svc) xs w) = staging w"
  "texture_cache (fold (after_sampler svc) xs w) = fold (resolve_sampler svc) xs (texture_cache w)"
  "this_obj (fold (after_sampler svc) xs w) = this_obj w"
  "trace (fold (after_sampler svc) xs w) = trace w @
     map (\<lambda>x. EvGetSampler (ReadUd_Sampler svc (sgpr_base x) (dword_offset x))) xs"
  by (induction xs arbitrary: w) (simp_all add: after_sampler_eq)

lemma map_take_prefix:
  "map (\<lambda>j. f (take j (take k bs)) (take k bs ! j)) [0..<length (take k bs)] =
   map (\<lambda>j. f (take j bs) (bs ! j)) [0..<min (length bs) k]"
  by (rule map_cong) (simp_all add: min.absorb1)

lemma record_world_all:
  "snd (record_bindings svc w) =
     fold (after_sampler svc) (take (samplers_started w) (the_samplers w))
       (fold (after_image svc) (take (images_started w) (the_images w))
         (fold (after_buffer svc) (take (buffers_started w) (the_buffers w)) w))"
proof -
  obtain r1 w1 where b: "for_each (bind_buffer svc) (the_buffers w) l0 w = (r1, w1)"
    by (cases "for_each (bind_buffer svc) (the_buffers w) l0 w")
  have w1: "w1 = fold (after_buffer svc) (take (buffers_started w) (the_buffers w)) w"
    using buffers_world_all [of svc "the_buffers w" l0 w] b
    by (simp add: l0_def buffers_started_def take_min_length)
  show ?thesis
  proof (cases r1)
    case (Inl e)
    with b have "\<not> (\<exists>l' w'. for_each (bind_buffer svc) (the_buffers w) l0 w = (Inr l', w'))"
      by simp
    then have nb: "\<not> length (the_buffers w) \<le> 4"
      unfolding buffers_capacity by (auto simp: l0_def)
    have "snd (record_bindings svc w) = w1"
      using b Inl by (simp add: record_bindings_loops)
    with w1 nb show ?thesis
      by (simp add: images_started_def samplers_started_def)
  next
    case l1: (Inr l1)
    with b have "\<exists>l' w'. for_each (bind_buffer svc) (the_buffers w) l0 w = (Inr l', w')"
      by simp
    then have nb: "length (the_buffers w) \<le> 4"
      unfolding buffers_capacity by (auto simp: l0_def)
    have k0: "binding_var l0 = of_nat 0" by (simp add: l0_def)
    note sb = buffers_shape [OF b [unfolded l1] k0]
    from sb have k1: "binding_var l1 = of_nat (length (the_buffers w))" by simp
    from sb have e1: "image_infos l1 = []" by (simp add: l0_def)
    obtain r2 w2 where i: "for_each (bind_image svc) (the_images w) l1 w1 = (r2, w2)"
      by (cases "for_each (bind_image svc) (the_images w) l1 w1")
    have w2: "w2 = fold (after_image svc) (take (images_started w) (the_images w)) w1"
      using images_world_all [of svc "the_images w" l1 w1] i nb
      by (simp add: e1 images_started_def take_min_length)
    show ?thesis
    proof (cases r2)
      case (Inl e)
      with i have "\<not> (\<exists>l' w'. for_each (bind_image svc) (the_images w) l1 w1 = (Inr l', w'))"
        by simp
      then have ni: "\<not> length (the_images w) \<le> 8"
        unfolding images_capacity by (auto simp: e1)
      have "snd (record_bindings svc w) = w2"
        using b l1 i Inl by (simp add: record_bindings_loops)
      with w1 w2 ni show ?thesis
        by (simp add: samplers_started_def)
    next
      case l2: (Inr l2)
      with i have "\<exists>l' w'. for_each (bind_image svc) (the_images w) l1 w1 = (Inr l', w')"
        by simp
      then have ni: "length (the_images w) \<le> 8"
        unfolding images_capacity by (auto simp: e1)
      note si = images_shape [OF i [unfolded l2] k1]
      from si have e2: "length (image_infos l2) = length (the_images w)" by (simp add: e1)
      have k: "Suc (8 - length (the_images w)) = 9 - length (the_images w)"
        using ni by simp
      have "snd (record_bindings svc w) =
              snd (for_each (bind_sampler svc) (the_samplers w) l2 w2)"
        using b l1 i l2 by (simp add: record_bindings_loops)
      also have "\<dots> = fold (after_sampler svc) (take (samplers_started w) (the_samplers w)) w2"
        using nb ni by (simp add: samplers_world_all e2 k samplers_started_def take_min_length)
      finally show ?thesis using w1 w2 by simp
    qed
  qed
qed

lemma BindResources_world:
  "trace (snd (BindResources svc w)) = trace (snd (record_bindings svc w)) @ final_pushes svc w"
  "texture_cache (snd (BindResources svc w)) = texture_cache (snd (record_bindings svc w))"
  "staging (snd (BindResources svc w)) = staging (snd (record_bindings svc w))"
proof -
  obtain r w' where run: "record_bindings svc w = (r, w')"
    by (cases "record_bindings svc w")
  have t: "this_obj w' = this_obj w"
    using record_bindings_this [of svc w] run by simp
  show "trace (snd (BindResources svc w)) = trace (snd (record_bindings svc w)) @ final_pushes svc w"
    by (cases r)
      (simp_all add: BindResources_def run final_pushes_def push_bindings_def push_event_def t)
  show "texture_cache (snd (BindResources svc w)) = texture_cache (snd (record_bindings svc w))"
    by (cases r) (simp_all add: BindResources_def run push_bindings_def)
  show "staging (snd (BindResources svc w)) = staging (snd (record_bindings svc w))"
    by (cases r) (simp_all add: BindResources_def run push_bindings_def)
qed

lemma started_order:
  "images_started w = 0 \<or> buffers_started w = length (the_buffers w)"
  "samplers_started w = 0 \<or> images_started w = length (the_images w)"
  by (auto simp: images_started_def buffers_started_def samplers_started_def)

lemma record_trace_all:
  "trace (snd (record_bindings svc w)) = trace w @
     concat (map (\<lambda>i. buffer_events svc (the_buffers w ! i)
               (mapped_data svc (staging_before svc w i) (the_buffers w ! i)))
       [0..<buffers_started w]) @
     map (\<lambda>x. EvFindImageView (ReadUd_Image svc (sgpr_base x) (dword_offset x)))
       (take (images_started w) (the_images w)) @
     map (\<lambda>x. EvGetSampler (ReadUd_Sampler svc (sgpr_base x) (dword_offset x)))
       (take (samplers_started w) (the_samplers w))"
proof -
  have m: "map (\<lambda>j. buffer_events svc (take (buffers_started w) (the_buffers w) ! j)
               (mapped_data svc
                  (fold (stage_buffer svc) (take j (take (buffers_started w) (the_buffers w)))
                     (staging w))
                  (take (buffers_started w) (the_buffers w) ! j)))
       [0..<length (take (buffers_started w) (the_buffers w))] =
     map (\<lambda>i. buffer_events svc (the_buffers w ! i)
               (mapped_data svc (staging_before svc w i) (the_buffers w ! i)))
       [0..<buffers_started w]"
    using map_take_prefix [of "\<lambda>pre b. buffer_events svc b
        (mapped_data svc (fold (stage_buffer svc) pre (staging w)) b)"
        "buffers_started w" "the_buffers w"]
    by (simp add: staging_before_def buffers_started_def)
  show ?thesis
    unfolding record_world_all fold_after_sampler fold_after_image fold_after_buffer_trace m
    by simp
qed

lemma record_cache_all:
  "texture_cache (snd (record_bindings svc w)) =
     fold (resolve_sampler svc) (take (samplers_started w) (the_samplers w))
       (fold (resolve_image svc) (take (images_started w) (the_images w))
         (fold (invalidate svc) (take (buffers_started w) (the_buffers w)) (texture_cache w)))"
  unfolding record_world_all fold_after_sampler fold_after_image fold_after_buffer
  by simp

subsection \<open>The writes of every run are a prefix of the numbering\<close>

lemma history_prefix:
  "l' \<in> set (history body xs l w) \<Longrightarrow>
     \<exists>k w'. k \<le> length xs \<and> for_each body (take k xs) l w = (Inr l', w')"
proof (induction xs arbitrary: l w)
  case Nil
  then show ?case by simp
next
  case (Cons x xs)
  show ?case
  proof (cases "body x l w")
    case (Pair r w1)
    show ?thesis
    proof (cases r)
      case (Inl e)
      with Pair Cons.prems show ?thesis by simp
    next
      case (Inr l1)
      with Pair Cons.prems have "l' = l1 \<or> l' \<in> set (history body xs l1 w1)" by simp
      then show ?thesis
      proof
        assume "l' = l1"
        with Pair Inr have "for_each body (take 1 (x # xs)) l w = (Inr l', w1)" by simp
        then show ?thesis by (intro exI [of _ 1] exI [of _ w1]) simp
      next
        assume "l' \<in> set (history body xs l1 w1)"
        from Cons.IH [OF this] obtain k w' where k: "k \<le> length xs"
          and r: "for_each body (take k xs) l1 w1 = (Inr l', w')"
          by blast
        from r Pair Inr have "for_each body (take (Suc k) (x # xs)) l w = (Inr l', w')"
          by simp
        with k show ?thesis by (intro exI [of _ "Suc k"] exI [of _ w']) simp
      qed
    qed
  qed
qed

lemma enumerate_take: "enumerate n (take k xs) = take k (enumerate n xs)"
proof (induction xs arbitrary: n k)
  case Nil
  show ?case by simp
next
  case (Cons x xs)
  show ?case by (cases k) (simp_all add: Cons.IH)
qed

lemma take_length_prefix: "ys = xs @ zs \<Longrightarrow> xs = take (length xs) ys"
  by simp

lemma reached_writes:
  "list_all (\<lambda>l. set_writes l =
       take (length (set_writes l))
         (map (\<lambda>(p, e). entry_write (length (the_buffers w)) p e)
            (spec_binding_assignment (info (this_obj w)))))
     (locals_reached svc w)"
proof -
  let ?Wb = "map (\<lambda>(j, b). descriptor_write j (buffer_type b) None (Some j))
      (enumerate 0 (the_buffers w))"
  let ?fi = "\<lambda>(j, x :: ResourceLocation).
      descriptor_write (length (the_buffers w) + j) eSampledImage (Some j) None"
  let ?fs = "\<lambda>(j, x :: ResourceLocation).
      descriptor_write (length (the_buffers w) + length (the_images w) + j) eSampler
        (Some (length (the_images w) + j)) None"
  let ?Wi = "map ?fi (enumerate 0 (the_images w))"
  let ?Ws = "map ?fs (enumerate 0 (the_samplers w))"
  let ?W = "map (\<lambda>(p, e). entry_write (length (the_buffers w)) p e)
      (spec_binding_assignment (info (this_obj w)))"
  let ?P = "\<lambda>l. set_writes l = take (length (set_writes l)) ?W"
  have W: "?W = ?Wb @ ?Wi @ ?Ws" by (rule assignment_writes)
  have k0: "binding_var l0 = of_nat 0" by (simp add: l0_def)
  have p0: "?P l0" by (simp add: l0_def)
  have pb: "?P l'" if m: "l' \<in> set (history (bind_buffer svc) (the_buffers w) l0 w)" for l'
  proof -
    from history_prefix [OF m] obtain k w' where
      r: "for_each (bind_buffer svc) (take k (the_buffers w)) l0 w = (Inr l', w')"
      by blast
    have "set_writes l' = take k ?Wb"
      using buffers_shape [OF r k0] by (simp add: l0_def enumerate_take take_map)
    then have "?W = set_writes l' @ (drop k ?Wb @ ?Wi @ ?Ws)"
      unfolding W by simp
    then show ?thesis by (rule take_length_prefix)
  qed
  have hb: "list_all ?P (history (bind_buffer svc) (the_buffers w) l0 w)"
    using pb by (simp add: list_all_iff)
  have rest: "list_all ?P
     (case for_each (bind_buffer svc) (the_buffers w) l0 w of
        (Inl e, w1) \<Rightarrow> []
      | (Inr l1, w1) \<Rightarrow>
          history (bind_image svc) (the_images w) l1 w1 @
          (case for_each (bind_image svc) (the_images w) l1 w1 of
             (Inl e, w2) \<Rightarrow> []
           | (Inr l2, w2) \<Rightarrow> history (bind_sampler svc) (the_samplers w) l2 w2))"
  proof (cases "for_each (bind_buffer svc) (the_buffers w) l0 w")
    case (Pair r1 w1)
    show ?thesis
    proof (cases r1)
      case (Inl e)
      with Pair show ?thesis by simp
    next
      case l1: (Inr l1)
      note sb = buffers_shape [OF Pair [unfolded l1] k0]
      from sb have k1: "binding_var l1 = of_nat (length (the_buffers w))" by simp
      from sb have e1: "image_infos l1 = []" by (simp add: l0_def)
      from sb have w1: "set_writes l1 = ?Wb" by (simp add: l0_def)
      have pi: "?P l'" if m: "l' \<in> set (history (bind_image svc) (the_images w) l1 w1)" for l'
      proof -
        from history_prefix [OF m] obtain k w' where
          r: "for_each (bind_image svc) (take k (the_images w)) l1 w1 = (Inr l', w')"
          by blast
        have "set_writes l' = ?Wb @ take k ?Wi"
          using images_shape [OF r k1] by (simp add: e1 w1 enumerate_take take_map)
        then have "?W = set_writes l' @ (drop k ?Wi @ ?Ws)"
          unfolding W by simp
        then show ?thesis by (rule take_length_prefix)
      qed
      have hi: "list_all ?P (history (bind_image svc) (the_images w) l1 w1)"
        using pi by (simp add: list_all_iff)
      show ?thesis
      proof (cases "for_each (bind_image svc) (the_images w) l1 w1")
        case p2: (Pair r2 w2)
        show ?thesis
        proof (cases r2)
          case (Inl e)
          with Pair l1 p2 hi show ?thesis by simp
        next
          case l2: (Inr l2)
          note si = images_shape [OF p2 [unfolded l2] k1]
          from si have k2: "binding_var l2 =
              of_nat (length (the_buffers w) + length (the_images w))" by simp
          from si have e2: "length (image_infos l2) = length (the_images w)"
            by (simp add: e1)
          from si have w2: "set_writes l2 = ?Wb @ ?Wi" by (simp add: e1 w1)
          have ps: "?P l'"
            if m: "l' \<in> set (history (bind_sampler svc) (the_samplers w) l2 w2)" for l'
          proof -
            from history_prefix [OF m] obtain k w' where
              r: "for_each (bind_sampler svc) (take k (the_samplers w)) l2 w2 = (Inr l', w')"
              by blast
            have "set_writes l' = ?Wb @ ?Wi @ take k ?Ws"
              using samplers_shape [OF r k2] by (simp add: e2 w2 enumerate_take take_map)
            then have "?W = set_writes l' @ drop k ?Ws"
              unfolding W by simp
            then show ?thesis by (rule take_length_prefix)
          qed
          have "list_all ?P (history (bind_sampler svc) (the_samplers w) l2 w2)"
            using ps by (simp add: list_all_iff)
          with Pair l1 p2 l2 hi show ?thesis by simp
        qed
      qed
    qed
  qed
  show ?thesis
    unfolding locals_reached_def using p0 hb rest by simp
qed

section \<open>The claims\<close>

subsection \<open>C1\<close>

text \<open>Claim C1. Number the entries of the resource layout from zero through the buffers,
  then the images, then the samplers, each list in declared order
  (\<open>spec_binding_assignment\<close>). The layout bindings the constructor builds are, in order,
  one per entry: the binding with the index and the descriptor type of that entry. Every
  state of the locals that a run of \<^verbatim>\<open>BindResources\<close> goes through, whether the run
  completes or throws, holds as its writes the first writes of the same numbering: the
  write at a position has the index of the entry at that position and its descriptor type,
  and points to the info of that entry. When the loops complete the writes are all of
  them, the info a buffer write points to is the one staged for that buffer entry, the
  info an image or sampler write points to is the one resolved for that entry, and the
  indices of the writes are, position by position, the indices of the layout bindings:
  0, 1, and so on up to the number of entries.\<close>

theorem binding_indices_agree:
  "layout_bindings (info (this_obj w)) =
     map (\<lambda>(p, e). layout_entry (of_nat p) (entry_type e))
       (spec_binding_assignment (info (this_obj w))) \<and>
   list_all (\<lambda>l. set_writes l =
       take (length (set_writes l))
         (map (\<lambda>(p, e). entry_write (length (the_buffers w)) p e)
            (spec_binding_assignment (info (this_obj w)))))
     (locals_reached svc w) \<and>
   (\<forall>l w'. record_bindings svc w = (Inr l, w') \<longrightarrow>
      set_writes l =
        map (\<lambda>(p, e). entry_write (length (the_buffers w)) p e)
          (spec_binding_assignment (info (this_obj w))) \<and>
      buffer_infos l =
        map (\<lambda>i. staged_info svc (staging_before svc w i) (the_buffers w ! i))
          [0..<length (the_buffers w)] \<and>
      image_infos l =
        map (\<lambda>j. image_info svc (cache_before_image svc w j) (the_images w ! j))
          [0..<length (the_images w)] @
        map (\<lambda>k. sampler_info svc (cache_before_sampler svc w k) (the_samplers w ! k))
          [0..<length (the_samplers w)] \<and>
      map dstBinding (set_writes l) = map binding (layout_bindings (info (this_obj w)))) \<and>
   map binding (layout_bindings (info (this_obj w))) =
     map of_nat [0..<length (the_buffers w) + length (the_images w) + length (the_samplers w)]"
proof -
  note layout_by_assignment [of "info (this_obj w)"]
  moreover note reached_writes [of w svc]
  moreover have "\<forall>l w'. record_bindings svc w = (Inr l, w') \<longrightarrow>
      set_writes l =
        map (\<lambda>(p, e). entry_write (length (the_buffers w)) p e)
          (spec_binding_assignment (info (this_obj w))) \<and>
      buffer_infos l =
        map (\<lambda>i. staged_info svc (staging_before svc w i) (the_buffers w ! i))
          [0..<length (the_buffers w)] \<and>
      image_infos l =
        map (\<lambda>j. image_info svc (cache_before_image svc w j) (the_images w ! j))
          [0..<length (the_images w)] @
        map (\<lambda>k. sampler_info svc (cache_before_sampler svc w k) (the_samplers w ! k))
          [0..<length (the_samplers w)] \<and>
      map dstBinding (set_writes l) = map binding (layout_bindings (info (this_obj w)))"
  proof (intro allI impI)
    fix l w'
    assume run: "record_bindings svc w = (Inr l, w')"
    note writes_by_assignment [OF run]
    moreover note record_bindings_contents(1,2) [OF run]
    moreover have "map dstBinding (set_writes l) =
        map binding (layout_bindings (info (this_obj w)))"
      using run by (simp add: map_dstBinding_writes map_binding_layout)
    ultimately show "set_writes l =
        map (\<lambda>(p, e). entry_write (length (the_buffers w)) p e)
          (spec_binding_assignment (info (this_obj w))) \<and>
      buffer_infos l =
        map (\<lambda>i. staged_info svc (staging_before svc w i) (the_buffers w ! i))
          [0..<length (the_buffers w)] \<and>
      image_infos l =
        map (\<lambda>j. image_info svc (cache_before_image svc w j) (the_images w ! j))
          [0..<length (the_images w)] @
        map (\<lambda>k. sampler_info svc (cache_before_sampler svc w k) (the_samplers w ! k))
          [0..<length (the_samplers w)] \<and>
      map dstBinding (set_writes l) = map binding (layout_bindings (info (this_obj w)))"
      by blast
  qed
  moreover note map_binding_layout [of "info (this_obj w)"]
  ultimately show ?thesis by blast
qed

text \<open>The numbering of the worked dispatch, its layout bindings and its writes.\<close>

theorem binding_indices_agree_witness:
  "record_bindings example_services example_world = (Inr example_locals, example_world_bound) \<and>
   spec_binding_assignment example_info =
     [(0, BufferEntry \<lparr>sgpr_base = 0, dword_offset = 256, is_storage = True\<rparr>),
      (1, BufferEntry \<lparr>sgpr_base = 4, dword_offset = 64, is_storage = False\<rparr>),
      (2, ImageEntry \<lparr>sgpr_base = 8, dword_offset = 0\<rparr>),
      (3, SamplerEntry \<lparr>sgpr_base = 16, dword_offset = 0\<rparr>)] \<and>
   map (\<lambda>b. (binding b, descriptorType b)) (layout_bindings example_info) =
     [(0, eStorageBuffer), (1, eUniformBuffer), (2, eSampledImage), (3, eSampler)] \<and>
   map (\<lambda>wr. (dstBinding wr, descriptorType_w wr, pBufferInfo wr, pImageInfo wr))
       (set_writes example_locals) =
     [(0, eStorageBuffer, Some 0, None), (1, eUniformBuffer, Some 1, None),
      (2, eSampledImage, None, Some 0), (3, eSampler, None, Some 1)] \<and>
   list_all (\<lambda>l. set_writes l = take (length (set_writes l)) (set_writes example_locals))
     (locals_reached example_services example_world)"
proof -
  have a: "spec_binding_assignment example_info =
     [(0, BufferEntry \<lparr>sgpr_base = 0, dword_offset = 256, is_storage = True\<rparr>),
      (1, BufferEntry \<lparr>sgpr_base = 4, dword_offset = 64, is_storage = False\<rparr>),
      (2, ImageEntry \<lparr>sgpr_base = 8, dword_offset = 0\<rparr>),
      (3, SamplerEntry \<lparr>sgpr_base = 16, dword_offset = 0\<rparr>)]"
    by (simp add: spec_binding_assignment_def spec_descriptor_entries_def example_info_def)
  have i: "info (this_obj example_world) = example_info"
    "length (buffers example_info) = 2"
    by (simp_all add: example_world_def example_info_def)
  note t = binding_indices_agree [of example_world example_services, unfolded i]
  note r = t [THEN conjunct2, THEN conjunct2, THEN conjunct1, THEN spec, THEN spec, THEN mp,
      OF example_record_bindings]
  from t [THEN conjunct1, unfolded a]
  have l: "map (\<lambda>b. (binding b, descriptorType b)) (layout_bindings example_info) =
     [(0, eStorageBuffer), (1, eUniformBuffer), (2, eSampledImage), (3, eSampler)]"
    by (simp add: layout_entry_def buffer_type_def)
  from r [THEN conjunct1, unfolded a]
  have s: "map (\<lambda>wr. (dstBinding wr, descriptorType_w wr, pBufferInfo wr, pImageInfo wr))
       (set_writes example_locals) =
     [(0, eStorageBuffer, Some 0, None), (1, eUniformBuffer, Some 1, None),
      (2, eSampledImage, None, Some 0), (3, eSampler, None, Some 1)]"
    by (simp add: descriptor_write_def buffer_type_def)
  from t [THEN conjunct2, THEN conjunct1]
  have p: "list_all (\<lambda>l. set_writes l = take (length (set_writes l)) (set_writes example_locals))
     (locals_reached example_services example_world)"
    unfolding r [THEN conjunct1, symmetric] .
  from example_record_bindings a l s p show ?thesis by blast
qed

subsection \<open>C2\<close>

text \<open>Claim C2, amended. Provided the layout has at most 4 buffers and at most 8 images
  and samplers together, \<^verbatim>\<open>BindResources\<close> returns normally and the pushes in the calls
  it made are: none when the layout has no entry (no write is recorded then), and
  otherwise exactly one, on the command buffer of the scheduler, at the compute bind
  point, with the pipeline layout of the object, set index 0, and all the writes, one per
  entry.\<close>

theorem push_once_within_capacity:
  assumes "length (the_buffers w) \<le> 4"
    and "length (the_images w) + length (the_samplers w) \<le> 8"
  shows "fst (BindResources svc w) = Inr () \<and>
         (\<exists>l w1. record_bindings svc w = (Inr l, w1) \<and>
            length (set_writes l) =
              length (the_buffers w) + length (the_images w) + length (the_samplers w) \<and>
            filter is_push (trace (snd (BindResources svc w))) =
              filter is_push (trace w) @
              (if length (the_buffers w) + length (the_images w) + length (the_samplers w) = 0
               then []
               else [EvPushDescriptorSetKHR (Scheduler_CommandBuffer svc) eCompute
                       (pipeline_layout (this_obj w)) 0
                       (set_writes l) (buffer_infos l) (image_infos l)]))"
proof -
  from assms obtain l w1 where run: "record_bindings svc w = (Inr l, w1)"
    using record_bindings_capacity [of svc w] by blast
  have len: "length (set_writes l) =
      length (the_buffers w) + length (the_images w) + length (the_samplers w)"
    using run by (rule length_set_writes)
  have t: "this_obj w1 = this_obj w"
    using record_bindings_this [of svc w] run by simp
  have p: "filter is_push (trace w1) = filter is_push (trace w)"
    using record_bindings_pushes [of svc w] run by simp
  have b: "BindResources svc w = (Inr (), push_bindings svc l w1)"
    using run by (rule BindResources_Inr)
  have "filter is_push (trace (push_bindings svc l w1)) =
      filter is_push (trace w) @
      (if length (the_buffers w) + length (the_images w) + length (the_samplers w) = 0
       then []
       else [EvPushDescriptorSetKHR (Scheduler_CommandBuffer svc) eCompute
               (pipeline_layout (this_obj w)) 0
               (set_writes l) (buffer_infos l) (image_infos l)])"
  proof (cases "set_writes l = []")
    case True
    with len p show ?thesis by (simp add: push_bindings_def)
  next
    case False
    with len have "length (the_buffers w) + length (the_images w) + length (the_samplers w) \<noteq> 0"
      by auto
    with False p t show ?thesis by (simp add: push_bindings_def)
  qed
  with run len b show ?thesis by simp
qed

text \<open>The worked dispatch makes one push with its four writes; the shader with no
  resources makes none and returns normally.\<close>

theorem push_once_within_capacity_witness:
  "length (the_buffers example_world) \<le> 4 \<and>
   length (the_images example_world) + length (the_samplers example_world) \<le> 8 \<and>
   fst (BindResources example_services example_world) = Inr () \<and>
   filter is_push (trace (snd (BindResources example_services example_world))) =
     [EvPushDescriptorSetKHR 192 eCompute 2 0 (set_writes example_locals)
        (buffer_infos example_locals) (image_infos example_locals)] \<and>
   fst (BindResources example_services empty_world) = Inr () \<and>
   filter is_push (trace (snd (BindResources example_services empty_world))) = []"
proof -
  have 1: "length (the_buffers example_world) \<le> 4"
    and 2: "length (the_images example_world) + length (the_samplers example_world) \<le> 8"
    by (simp_all add: example_world_def example_info_def)
  have 3: "length (the_buffers empty_world) \<le> 4"
    and 4: "length (the_images empty_world) + length (the_samplers empty_world) \<le> 8"
    by (simp_all add: empty_world_def)
  have 5: "Scheduler_CommandBuffer example_services = 192"
    "pipeline_layout (this_obj example_world) = 2" "trace example_world = []"
    "trace empty_world = []"
    by (simp_all add: example_services_def example_world_def empty_world_def)
  have 6: "length (the_buffers example_world) + length (the_images example_world) +
      length (the_samplers example_world) = 4"
    "length (the_buffers empty_world) + length (the_images empty_world) +
      length (the_samplers empty_world) = 0"
    by (simp_all add: example_world_def example_info_def empty_world_def)
  from push_once_within_capacity [OF 1 2, of example_services]
  obtain l w1 where a: "fst (BindResources example_services example_world) = Inr ()"
    "record_bindings example_services example_world = (Inr l, w1)"
    "filter is_push (trace (snd (BindResources example_services example_world))) =
       filter is_push (trace example_world) @
       (if length (the_buffers example_world) + length (the_images example_world) +
           length (the_samplers example_world) = 0
        then []
        else [EvPushDescriptorSetKHR (Scheduler_CommandBuffer example_services) eCompute
                (pipeline_layout (this_obj example_world)) 0
                (set_writes l) (buffer_infos l) (image_infos l)])"
    by blast
  from a(2) have l: "l = example_locals"
    by (simp add: example_record_bindings)
  from push_once_within_capacity [OF 3 4, of example_services]
  obtain l' w1' where b: "fst (BindResources example_services empty_world) = Inr ()"
    "record_bindings example_services empty_world = (Inr l', w1')"
    "filter is_push (trace (snd (BindResources example_services empty_world))) =
       filter is_push (trace empty_world) @
       (if length (the_buffers empty_world) + length (the_images empty_world) +
           length (the_samplers empty_world) = 0
        then []
        else [EvPushDescriptorSetKHR (Scheduler_CommandBuffer example_services) eCompute
                (pipeline_layout (this_obj empty_world)) 0
                (set_writes l') (buffer_infos l') (image_infos l')])"
    by blast
  have "filter is_push (trace (snd (BindResources example_services example_world))) =
     [EvPushDescriptorSetKHR 192 eCompute 2 0 (set_writes example_locals)
        (buffer_infos example_locals) (image_infos example_locals)]"
    unfolding a(3) l 5 6 by simp
  moreover have "filter is_push (trace (snd (BindResources example_services empty_world))) = []"
    unfolding b(3) 5 6 by simp
  ultimately show ?thesis
    using 1 2 a(1) b(1) by blast
qed

text \<open>Without the bound the claim fails: with five buffers the layout has entries, yet the
  fifth insertion into \<^verbatim>\<open>buffer_infos\<close> throws and no push is made.\<close>

theorem push_with_entries_counterexample:
  "the_buffers overfull_world \<noteq> [] \<and>
   fst (BindResources example_services overfull_world) = Inl bad_alloc \<and>
   filter is_push (trace (snd (BindResources example_services overfull_world))) = []"
proof -
  obtain r w' where rw: "record_bindings example_services overfull_world = (r, w')"
    by (cases "record_bindings example_services overfull_world")
  with overfull_record_bindings have r: "r = Inl bad_alloc" by simp
  have "filter is_push (trace w') = filter is_push (trace overfull_world)"
    using record_bindings_pushes [of example_services overfull_world] rw by simp
  then have "filter is_push (trace w') = []"
    by (simp add: overfull_world_def)
  with rw r show ?thesis
    by (simp add: BindResources_def overfull_world_def)
qed

subsection \<open>C3\<close>

text \<open>Claim C3. Whenever the binder completes its loops, the buffer info recorded for buffer
  entry \<open>i\<close> is the triple of the handle of the staging buffer, the offset that
  \<^verbatim>\<open>Map\<close> returned for a region of the decoded size with alignment 64 (in the state the
  staging buffer had after the buffers before \<open>i\<close>), and the decoded size; write \<open>i\<close>
  points to it and has binding index \<open>i\<close>. When \<^verbatim>\<open>Map\<close> returns offsets that are
  multiples of the alignment it is given, the recorded offset is a multiple of 64; the
  narrowing of the offset to 32 bits keeps that.\<close>

theorem staged_buffer_bindings:
  assumes "record_bindings svc w = (Inr l, w')" and "Map_aligned svc"
  shows "length (buffer_infos l) = length (the_buffers w) \<and>
         (\<forall>i < length (the_buffers w).
            buffer_infos l ! i = staged_info svc (staging_before svc w i) (the_buffers w ! i) \<and>
            range_bi (buffer_infos l ! i) =
              ucast (GetSize (ReadUd_Buffer svc (sgpr_base (the_buffers w ! i))
                                (dword_offset (the_buffers w ! i)))) \<and>
            64 dvd unat (offset (buffer_infos l ! i)) \<and>
            pBufferInfo (set_writes l ! i) = Some i \<and>
            dstBinding (set_writes l ! i) = of_nat i) \<and>
         BindResources svc w = (Inr (), push_bindings svc l w')"
proof -
  have len: "length (buffer_infos l) = length (the_buffers w)"
    using assms(1) by (rule record_bindings_shape(2))
  have "buffer_infos l ! i = staged_info svc (staging_before svc w i) (the_buffers w ! i) \<and>
        range_bi (buffer_infos l ! i) =
          ucast (GetSize (ReadUd_Buffer svc (sgpr_base (the_buffers w ! i))
                            (dword_offset (the_buffers w ! i)))) \<and>
        64 dvd unat (offset (buffer_infos l ! i)) \<and>
        pBufferInfo (set_writes l ! i) = Some i \<and>
        dstBinding (set_writes l ! i) = of_nat i"
    if i: "i < length (the_buffers w)" for i
  proof -
    have f: "buffer_infos l ! i = staged_info svc (staging_before svc w i) (the_buffers w ! i)"
      using i by (simp add: record_bindings_contents(1) [OF assms(1)])
    moreover have "pBufferInfo (set_writes l ! i) = Some i"
      "dstBinding (set_writes l ! i) = of_nat i"
      using record_bindings_nth(1) [OF assms(1) i] by (simp_all add: descriptor_write_def)
    ultimately show ?thesis
      by (simp add: staged_info_range staged_info_aligned [OF assms(2)])
  qed
  with len BindResources_Inr [OF assms(1)] show ?thesis by blast
qed

text \<open>At the worked dispatch the cursor starts at 10: the regions are at offsets 64 and
  320, of sizes 256 and 64.\<close>

theorem staged_buffer_bindings_witness:
  "record_bindings example_services example_world = (Inr example_locals, example_world_bound) \<and>
   Map_aligned example_services \<and>
   buffer_infos example_locals =
     [\<lparr>buffer = 2815, offset = 64, range_bi = 256\<rparr>,
      \<lparr>buffer = 2815, offset = 320, range_bi = 64\<rparr>] \<and>
   64 dvd unat (offset (buffer_infos example_locals ! 0)) \<and>
   64 dvd unat (offset (buffer_infos example_locals ! 1))"
proof -
  have n: "length (the_buffers example_world) = 2"
    by (simp add: example_world_def example_info_def)
  have "(0::nat) < 2" and "(1::nat) < 2"
    by simp_all
  with staged_buffer_bindings [OF example_record_bindings example_Map_aligned, unfolded n]
  have "64 dvd unat (offset (buffer_infos example_locals ! 0))"
    "64 dvd unat (offset (buffer_infos example_locals ! 1))"
    by blast+
  then show ?thesis
    using example_record_bindings example_Map_aligned
    by (simp add: example_locals_def)
qed

subsection \<open>C4\<close>

text \<open>Claim C4. Whenever the binder completes its loops, the descriptor types of the writes
  are, position by position, the descriptor types of the layout bindings: for a buffer
  entry the storage-buffer type when \<^verbatim>\<open>is_storage\<close> is set and the uniform-buffer type
  otherwise, then the sampled-image type for every image and the sampler type for every
  sampler.\<close>

theorem descriptor_types_agree:
  assumes "record_bindings svc w = (Inr l, w')"
  shows "map descriptorType_w (set_writes l) =
           map descriptorType (layout_bindings (info (this_obj w))) \<and>
         map descriptorType_w (set_writes l) =
           map buffer_type (the_buffers w) @ replicate (length (the_images w)) eSampledImage @
           replicate (length (the_samplers w)) eSampler \<and>
         BindResources svc w = (Inr (), push_bindings svc l w')"
  using assms by (simp add: map_type_writes map_type_layout BindResources_Inr)

text \<open>At the worked dispatch: storage buffer, uniform buffer, sampled image, sampler, in
  both lists.\<close>

theorem descriptor_types_agree_witness:
  "record_bindings example_services example_world = (Inr example_locals, example_world_bound) \<and>
   map descriptorType_w (set_writes example_locals) =
     [eStorageBuffer, eUniformBuffer, eSampledImage, eSampler] \<and>
   map descriptorType (layout_bindings example_info) =
     [eStorageBuffer, eUniformBuffer, eSampledImage, eSampler]"
  using descriptor_types_agree [OF example_record_bindings] example_record_bindings
  by (simp add: example_locals_def example_world_def)

subsection \<open>C5\<close>

text \<open>Claim C5. The constructor makes three calls on the device. The descriptor-set layout is
  created with the push-descriptor flag and with the bindings built from the shader info,
  one per entry, each with descriptor count 1 and visible to the compute stage only. The
  pipeline layout is created with exactly one set layout, the handle the first call
  returned, and with no push-constant range. The pipeline is created with that pipeline
  layout.\<close>

theorem layout_builder_create_infos:
  "snd (ComputePipeline_ctor dev cache i m) =
     [CreateDescriptorSetLayout (desc_layout_ci i),
      CreatePipelineLayout (layout_info (createDescriptorSetLayoutUnique dev (desc_layout_ci i))),
      CreateComputePipeline cache
        (compute_pipeline_ci m (createPipelineLayoutUnique dev
           (layout_info (createDescriptorSetLayoutUnique dev (desc_layout_ci i)))))] \<and>
   flags (desc_layout_ci i) = {ePushDescriptorKHR} \<and>
   pBindings (desc_layout_ci i) = layout_bindings i \<and>
   length (layout_bindings i) = length (buffers i) + length (images i) + length (samplers i) \<and>
   list_all (\<lambda>b. descriptorCount b = 1 \<and> stageFlags b = {eComputeStage}) (layout_bindings i) \<and>
   setLayoutCount (layout_info set_layout) = 1 \<and>
   pSetLayouts (layout_info set_layout) = [set_layout] \<and>
   pushConstantRangeCount (layout_info set_layout) = 0 \<and>
   pPushConstantRanges (layout_info set_layout) = []"
proof -
  have "snd (ComputePipeline_ctor dev cache i m) =
     [CreateDescriptorSetLayout (desc_layout_ci i),
      CreatePipelineLayout (layout_info (createDescriptorSetLayoutUnique dev (desc_layout_ci i))),
      CreateComputePipeline cache
        (compute_pipeline_ci m (createPipelineLayoutUnique dev
           (layout_info (createDescriptorSetLayoutUnique dev (desc_layout_ci i)))))]"
    by (simp add: ComputePipeline_ctor_def Let_def split: sum.split)
  moreover have "list_all (\<lambda>b. descriptorCount b = 1 \<and> stageFlags b = {eComputeStage})
      (layout_bindings i)"
    using layout_all [of _ i] by (simp add: list_all_iff)
  ultimately show ?thesis
    by (simp add: desc_layout_ci_def layout_info_def Let_def length_layout)
qed

text \<open>For the shader of the worked dispatch, on a device where every creation succeeds.\<close>

theorem layout_builder_create_infos_witness:
  "pBindings (desc_layout_ci example_info) =
     [\<lparr>binding = 0, descriptorType = eStorageBuffer, descriptorCount = 1,
        stageFlags = {eComputeStage}\<rparr>,
      \<lparr>binding = 1, descriptorType = eUniformBuffer, descriptorCount = 1,
        stageFlags = {eComputeStage}\<rparr>,
      \<lparr>binding = 2, descriptorType = eSampledImage, descriptorCount = 1,
        stageFlags = {eComputeStage}\<rparr>,
      \<lparr>binding = 3, descriptorType = eSampler, descriptorCount = 1,
        stageFlags = {eComputeStage}\<rparr>] \<and>
   fst (ComputePipeline_ctor working_device 0 example_info 7) =
     Returned \<lparr>info = example_info, desc_layout = 1, pipeline_layout = 2, pipeline = 3\<rparr>"
  using layout_builder_create_infos [of working_device 0 example_info 7 1]
  by (simp add: ComputePipeline_ctor_def createComputePipelineUnique_def working_device_def
      Let_def layout_bindings_def example_info_def push_buffer_binding_def
      push_image_binding_def push_sampler_binding_def)

subsection \<open>C6\<close>

text \<open>Claim C6. In every run of \<^verbatim>\<open>BindResources\<close>, whether it returns or throws, the
  calls it makes are, in this order: for each buffer whose iteration starts (every buffer
  up to the fifth, whose insertion throws) \<^verbatim>\<open>OnCpuWrite\<close> of the decoded base address,
  then \<^verbatim>\<open>Map\<close>, then the copy from that address into the mapped region, then
  \<^verbatim>\<open>Commit\<close> (\<open>buffer_events\<close>); then one \<^verbatim>\<open>FindImageView\<close> per image whose
  iteration starts; then one \<^verbatim>\<open>GetSampler\<close> per sampler whose iteration starts; then
  the push, if the loops completed and recorded a write. So the notification of a buffer
  comes strictly before its copy, also in the iteration that throws. An image is resolved
  only when every buffer has been through its iteration; the texture cache is threaded
  through every notification before the first resolution; and when the loops complete,
  the info recorded for image \<open>j\<close> holds the view resolved in the cache after all the
  notifications and the resolutions of the images before it.\<close>

theorem invalidation_precedes_staging:
  "trace (snd (BindResources svc w)) =
     trace w @
     concat (map (\<lambda>i. buffer_events svc (the_buffers w ! i)
               (mapped_data svc (staging_before svc w i) (the_buffers w ! i)))
       [0..<buffers_started w]) @
     map (\<lambda>x. EvFindImageView (ReadUd_Image svc (sgpr_base x) (dword_offset x)))
       (take (images_started w) (the_images w)) @
     map (\<lambda>x. EvGetSampler (ReadUd_Sampler svc (sgpr_base x) (dword_offset x)))
       (take (samplers_started w) (the_samplers w)) @
     final_pushes svc w \<and>
   texture_cache (snd (BindResources svc w)) =
     fold (resolve_sampler svc) (take (samplers_started w) (the_samplers w))
       (fold (resolve_image svc) (take (images_started w) (the_images w))
         (fold (invalidate svc) (take (buffers_started w) (the_buffers w)) (texture_cache w))) \<and>
   (images_started w = 0 \<or> buffers_started w = length (the_buffers w)) \<and>
   (\<forall>l w1. record_bindings svc w = (Inr l, w1) \<longrightarrow>
      image_infos l =
        map (\<lambda>j. image_info svc (cache_before_image svc w j) (the_images w ! j))
          [0..<length (the_images w)] @
        map (\<lambda>k. sampler_info svc (cache_before_sampler svc w k) (the_samplers w ! k))
          [0..<length (the_samplers w)])"
proof -
  have "trace (snd (BindResources svc w)) =
     trace w @
     concat (map (\<lambda>i. buffer_events svc (the_buffers w ! i)
               (mapped_data svc (staging_before svc w i) (the_buffers w ! i)))
       [0..<buffers_started w]) @
     map (\<lambda>x. EvFindImageView (ReadUd_Image svc (sgpr_base x) (dword_offset x)))
       (take (images_started w) (the_images w)) @
     map (\<lambda>x. EvGetSampler (ReadUd_Sampler svc (sgpr_base x) (dword_offset x)))
       (take (samplers_started w) (the_samplers w)) @
     final_pushes svc w"
    unfolding BindResources_world(1) record_trace_all by simp
  moreover have "texture_cache (snd (BindResources svc w)) =
     fold (resolve_sampler svc) (take (samplers_started w) (the_samplers w))
       (fold (resolve_image svc) (take (images_started w) (the_images w))
         (fold (invalidate svc) (take (buffers_started w) (the_buffers w)) (texture_cache w)))"
    unfolding BindResources_world(2) by (rule record_cache_all)
  moreover note started_order(1) [of w]
  moreover have "\<forall>l w1. record_bindings svc w = (Inr l, w1) \<longrightarrow>
      image_infos l =
        map (\<lambda>j. image_info svc (cache_before_image svc w j) (the_images w ! j))
          [0..<length (the_images w)] @
        map (\<lambda>k. sampler_info svc (cache_before_sampler svc w k) (the_samplers w ! k))
          [0..<length (the_samplers w)]"
    using record_bindings_contents(2) by blast
  ultimately show ?thesis by blast
qed

text \<open>At the worked dispatch the view of the image counts the two notifications; with
  five buffers the fifth iteration notifies and copies before it throws, and there is no
  push.\<close>

theorem invalidation_precedes_staging_witness:
  "record_bindings example_services example_world = (Inr example_locals, example_world_bound) \<and>
   trace (snd (BindResources example_services example_world)) =
     [EvOnCpuWrite 0, EvMap 256 64, EvMemcpy 1048640 0 256, EvCommit 256,
      EvOnCpuWrite 16384, EvMap 64 64, EvMemcpy 1048896 16384 64, EvCommit 64,
      EvFindImageView (8, 0), EvGetSampler (16, 0),
      push_event example_services example_world example_locals] \<and>
   texture_cache (snd (BindResources example_services example_world)) = [0, 16384] \<and>
   image_infos example_locals =
     [image_info example_services [0, 16384] \<lparr>sgpr_base = 8, dword_offset = 0\<rparr>,
      sampler_info example_services [0, 16384] \<lparr>sgpr_base = 16, dword_offset = 0\<rparr>] \<and>
   fst (BindResources example_services overfull_world) = Inl bad_alloc \<and>
   trace (snd (BindResources example_services overfull_world)) =
     [EvOnCpuWrite 0, EvMap 64 64, EvMemcpy 1048576 0 64, EvCommit 64,
      EvOnCpuWrite 0, EvMap 64 64, EvMemcpy 1048640 0 64, EvCommit 64,
      EvOnCpuWrite 0, EvMap 64 64, EvMemcpy 1048704 0 64, EvCommit 64,
      EvOnCpuWrite 0, EvMap 64 64, EvMemcpy 1048768 0 64, EvCommit 64,
      EvOnCpuWrite 0, EvMap 64 64, EvMemcpy 1048832 0 64, EvCommit 64] \<and>
   texture_cache (snd (BindResources example_services overfull_world)) = [0, 0, 0, 0, 0]"
proof -
  note e = invalidation_precedes_staging [of example_services example_world]
  note o = invalidation_precedes_staging [of example_services overfull_world]
  have n5: "[0..<5] = [0, 1, 2, 3, 4]" "[0..<2] = [0, 1]"
    by code_simp+
  have r5: "replicate 5 x = [x, x, x, x, x]" for x :: BufferResource
    by (simp add: numeral_eq_Suc)
  have bo: "the_buffers overfull_world =
      replicate 5 \<lparr>sgpr_base = 0, dword_offset = 64, is_storage = False\<rparr>"
    "trace overfull_world = []" "texture_cache overfull_world = []" "staging overfull_world = 0"
    by (simp_all add: overfull_world_def)
  have fe: "final_pushes example_services example_world =
      [push_event example_services example_world example_locals]"
    by (simp add: final_pushes_def example_record_bindings example_locals_def)
  have fo: "final_pushes example_services overfull_world = []"
    by (simp add: final_pushes_def overfull_record_bindings)
  have se: "buffers_started example_world = 2" "images_started example_world = 1"
    "samplers_started example_world = 1"
    by (simp_all add: buffers_started_def images_started_def samplers_started_def
        example_world_def example_info_def)
  have so: "buffers_started overfull_world = 5" "images_started overfull_world = 0"
    "samplers_started overfull_world = 0"
    by (simp_all add: buffers_started_def images_started_def samplers_started_def
        overfull_world_def)
  from e [THEN conjunct1] have "trace (snd (BindResources example_services example_world)) =
     trace example_world @
     concat (map (\<lambda>i. buffer_events example_services (the_buffers example_world ! i)
               (mapped_data example_services (staging_before example_services example_world i)
                  (the_buffers example_world ! i)))
       [0..<2]) @
     map (\<lambda>x. EvFindImageView (ReadUd_Image example_services (sgpr_base x) (dword_offset x)))
       (take 1 (the_images example_world)) @
     map (\<lambda>x. EvGetSampler (ReadUd_Sampler example_services (sgpr_base x) (dword_offset x)))
       (take 1 (the_samplers example_world)) @
     [push_event example_services example_world example_locals]"
    unfolding se fe .
  then have te: "trace (snd (BindResources example_services example_world)) =
     [EvOnCpuWrite 0, EvMap 256 64, EvMemcpy 1048640 0 256, EvCommit 256,
      EvOnCpuWrite 16384, EvMap 64 64, EvMemcpy 1048896 16384 64, EvCommit 64,
      EvFindImageView (8, 0), EvGetSampler (16, 0),
      push_event example_services example_world example_locals]"
    by (simp add: n5 example_world_def example_info_def example_services_def
        buffer_events_def mapped_data_def staging_before_def stage_buffer_def example_Map_def
        MinUniformAlignment_def Let_def)
  from e [THEN conjunct2, THEN conjunct1]
  have "texture_cache (snd (BindResources example_services example_world)) =
     fold (resolve_sampler example_services) (take 1 (the_samplers example_world))
       (fold (resolve_image example_services) (take 1 (the_images example_world))
         (fold (invalidate example_services) (take 2 (the_buffers example_world))
            (texture_cache example_world)))"
    unfolding se .
  then have ce: "texture_cache (snd (BindResources example_services example_world)) = [0, 16384]"
    by (simp add: example_services_def example_world_def example_info_def
        resolve_sampler_def resolve_image_def invalidate_def)
  from e [THEN conjunct2, THEN conjunct2, THEN conjunct2, THEN spec, THEN spec, THEN mp,
      OF example_record_bindings]
  have "image_infos example_locals =
        map (\<lambda>j. image_info example_services (cache_before_image example_services example_world j)
               (the_images example_world ! j))
          [0..<length (the_images example_world)] @
        map (\<lambda>k. sampler_info example_services
               (cache_before_sampler example_services example_world k)
               (the_samplers example_world ! k))
          [0..<length (the_samplers example_world)]" .
  then have ie: "image_infos example_locals =
     [image_info example_services [0, 16384] \<lparr>sgpr_base = 8, dword_offset = 0\<rparr>,
      sampler_info example_services [0, 16384] \<lparr>sgpr_base = 16, dword_offset = 0\<rparr>]"
    by (simp add: example_world_def example_info_def cache_before_image_def
        cache_before_sampler_def invalidate_def resolve_image_def example_services_def
        image_info_def sampler_info_def)
  from o [THEN conjunct1] have "trace (snd (BindResources example_services overfull_world)) =
     trace overfull_world @
     concat (map (\<lambda>i. buffer_events example_services (the_buffers overfull_world ! i)
               (mapped_data example_services (staging_before example_services overfull_world i)
                  (the_buffers overfull_world ! i)))
       [0..<5]) @
     map (\<lambda>x. EvFindImageView (ReadUd_Image example_services (sgpr_base x) (dword_offset x)))
       (take 0 (the_images overfull_world)) @
     map (\<lambda>x. EvGetSampler (ReadUd_Sampler example_services (sgpr_base x) (dword_offset x)))
       (take 0 (the_samplers overfull_world)) @
     []"
    unfolding so fo .
  then have to: "trace (snd (BindResources example_services overfull_world)) =
     [EvOnCpuWrite 0, EvMap 64 64, EvMemcpy 1048576 0 64, EvCommit 64,
      EvOnCpuWrite 0, EvMap 64 64, EvMemcpy 1048640 0 64, EvCommit 64,
      EvOnCpuWrite 0, EvMap 64 64, EvMemcpy 1048704 0 64, EvCommit 64,
      EvOnCpuWrite 0, EvMap 64 64, EvMemcpy 1048768 0 64, EvCommit 64,
      EvOnCpuWrite 0, EvMap 64 64, EvMemcpy 1048832 0 64, EvCommit 64]"
    by (simp add: n5 bo r5 example_services_def
        buffer_events_def mapped_data_def staging_before_def stage_buffer_def example_Map_def
        MinUniformAlignment_def Let_def)
  from o [THEN conjunct2, THEN conjunct1]
  have "texture_cache (snd (BindResources example_services overfull_world)) =
     fold (resolve_sampler example_services) (take 0 (the_samplers overfull_world))
       (fold (resolve_image example_services) (take 0 (the_images overfull_world))
         (fold (invalidate example_services) (take 5 (the_buffers overfull_world))
            (texture_cache overfull_world)))"
    unfolding so .
  then have co: "texture_cache (snd (BindResources example_services overfull_world)) =
      [0, 0, 0, 0, 0]"
    by (simp add: bo r5 example_services_def invalidate_def)
  have ro: "fst (BindResources example_services overfull_world) = Inl bad_alloc"
    using overfull_record_bindings
    by (cases "record_bindings example_services overfull_world")
      (auto simp: BindResources_def split: sum.splits)
  from example_record_bindings te ce ie ro to co show ?thesis by blast
qed

subsection \<open>C7\<close>



subsection \<open>C8\<close>

text \<open>Claim C8. Whenever the binder completes its loops, the write of image entry \<open>j\<close> has
  the binding index of that entry and points to an image info that holds exactly the view
  handle \<^verbatim>\<open>FindImageView\<close> returned for the decoded descriptor of the entry, with the
  general layout and a null sampler; the write of sampler entry \<open>k\<close> has the binding
  index of that entry and points to an image info that holds exactly the handle
  \<^verbatim>\<open>GetSampler\<close> returned for its decoded descriptor, with a null view. The file has no
  fallback value: what the texture cache returns is what is recorded.\<close>

theorem resolved_handles_recorded:
  assumes "record_bindings svc w = (Inr l, w')"
  shows "length (image_infos l) = length (the_images w) + length (the_samplers w) \<and>
         (\<forall>j < length (the_images w).
            image_infos l ! j = image_info svc (cache_before_image svc w j) (the_images w ! j) \<and>
            set_writes l ! (length (the_buffers w) + j) =
              descriptor_write (length (the_buffers w) + j) eSampledImage (Some j) None) \<and>
         (\<forall>k < length (the_samplers w).
            image_infos l ! (length (the_images w) + k) =
              sampler_info svc (cache_before_sampler svc w k) (the_samplers w ! k) \<and>
            set_writes l ! (length (the_buffers w) + length (the_images w) + k) =
              descriptor_write (length (the_buffers w) + length (the_images w) + k) eSampler
                (Some (length (the_images w) + k)) None) \<and>
         BindResources svc w = (Inr (), push_bindings svc l w')"
proof -
  have 1: "image_infos l ! j = image_info svc (cache_before_image svc w j) (the_images w ! j)"
    if "j < length (the_images w)" for j
    using that by (simp add: record_bindings_contents(2) [OF assms] nth_append)
  have 2: "image_infos l ! (length (the_images w) + k) =
      sampler_info svc (cache_before_sampler svc w k) (the_samplers w ! k)"
    if "k < length (the_samplers w)" for k
    using that by (simp add: record_bindings_contents(2) [OF assms] nth_append)
  show ?thesis
    using 1 2 record_bindings_nth(2,3) [OF assms] record_bindings_shape(3) [OF assms]
      BindResources_Inr [OF assms]
    by blast
qed

text \<open>At the worked dispatch writes 2 and 3 point to image infos 0 and 1.\<close>

theorem resolved_handles_recorded_witness:
  "record_bindings example_services example_world = (Inr example_locals, example_world_bound) \<and>
   image_infos example_locals =
     [\<lparr>sampler = VK_NULL_HANDLE, imageView = 258, imageLayout = eGeneral\<rparr>,
      \<lparr>sampler = 528, imageView = VK_NULL_HANDLE, imageLayout = eGeneral\<rparr>] \<and>
   image_infos example_locals ! 0 =
     image_info example_services (cache_before_image example_services example_world 0)
       (the_images example_world ! 0) \<and>
   image_infos example_locals ! 1 =
     sampler_info example_services (cache_before_sampler example_services example_world 0)
       (the_samplers example_world ! 0) \<and>
   pImageInfo (set_writes example_locals ! 2) = Some 0 \<and>
   pImageInfo (set_writes example_locals ! 3) = Some 1"
proof -
  have n: "length (the_images example_world) = 1" "length (the_samplers example_world) = 1"
    "length (the_buffers example_world) = 2"
    by (simp_all add: example_world_def example_info_def)
  have z: "(0::nat) < 1"
    by simp
  note t = resolved_handles_recorded [OF example_record_bindings, unfolded n]
  from t z have "image_infos example_locals ! 0 =
     image_info example_services (cache_before_image example_services example_world 0)
       (the_images example_world ! 0)"
    by blast
  moreover from t z have "image_infos example_locals ! (1 + 0) =
     sampler_info example_services (cache_before_sampler example_services example_world 0)
       (the_samplers example_world ! 0)"
    by blast
  ultimately have "image_infos example_locals ! 0 =
     image_info example_services (cache_before_image example_services example_world 0)
       (the_images example_world ! 0)"
    "image_infos example_locals ! 1 =
     sampler_info example_services (cache_before_sampler example_services example_world 0)
       (the_samplers example_world ! 0)"
    by simp_all
  then show ?thesis
    using example_record_bindings
    by (simp add: example_locals_def VK_NULL_HANDLE_def)
qed

subsection \<open>C9\<close>

text \<open>Claim C9. \<^verbatim>\<open>BindResources\<close> leaves the pipeline object as it was (the shader info,
  both layouts and the pipeline), whether it returns normally or throws.\<close>

theorem BindResources_keeps_pipeline_object:
  "this_obj (snd (BindResources svc w)) = this_obj w"
proof (cases "record_bindings svc w")
  case (Pair r w')
  with record_bindings_this [of svc w] have t: "this_obj w' = this_obj w" by simp
  show ?thesis
  proof (cases r)
    case (Inl e)
    with Pair t show ?thesis by (simp add: BindResources_def)
  next
    case (Inr l)
    with Pair t show ?thesis by (simp add: BindResources_def push_bindings_this)
  qed
qed

subsection \<open>C10\<close>




end
